theory Spec2Isabelle
  imports Main "HOL-Library.Word"
begin

unbundle bit_operations_syntax

section \<open>Bytes, errors and the records of the container\<close>

type_synonym byte = "8 word"
type_synonym bytes = "byte list"

text \<open>
  Every exception that can leave \<open>self2elf\<close> is a value of \<open>error\<close>:
  a record constructor of \<open>scetypes\<close> that rejects its bytes, a failure of
  \<open>sceutils.get_segments\<close>, a dictionary lookup with a missing key, the
  \<open>RuntimeError("ELF p_offset invalid!")\<close> of the padding check, and the failures of
  the cipher and of \<open>zlib\<close>.
\<close>

datatype error =
    RecordError
  | KeyLookupError
  | KeyError
  | LayoutError
  | CipherError
  | InflateError

text \<open>
  \<open>SecureBool\<close>: the source compares the two flags of a segment only against
  \<open>SecureBool.NO\<close> and \<open>SecureBool.YES\<close>; \<open>UNUSED\<close> stands for any other member.
\<close>

datatype SecureBool = UNUSED | NO | YES

text \<open>
  \<open>ControlType\<close>: the source compares the tag of a control-info header only against
  \<open>DIGEST_SHA256\<close> and \<open>NPDRM_VITA\<close>; \<open>OTHER_CONTROL n\<close> stands for any other member.
\<close>

datatype ControlType = DIGEST_SHA256 | NPDRM_VITA | OTHER_CONTROL nat

text \<open>
  The records of \<open>scetypes\<close>. The offsets, sizes and counts of the wire format are
  unsigned fields, hence \<open>nat\<close>; \<open>sys_version\<close> is overwritten with \<open>-1\<close> by the
  source, hence \<open>int\<close>. The envelope header, the version info and the digest are never
  inspected by \<open>self2elf\<close> (they are printed, and the envelope is handed to the key
  lookup), so they carry their content as one opaque value.
\<close>

datatype SceHeader = SceHeader bytes
datatype SceVersionInfo = SceVersionInfo bytes
datatype SceControlInfoDigest256 = SceControlInfoDigest256 bytes

record SelfHeader =
  appinfo_offset :: nat
  elf_offset :: nat
  phdr_offset :: nat
  segment_info_offset :: nat
  sceversion_offset :: nat
  controlinfo_offset :: nat

record AppInfoHeader =
  sys_version :: int
  self_type :: int

record SceControlInfo =
  ctl_type :: ControlType

record SceControlInfoDRM =
  npdrm_type :: int

record ElfHeader =
  e_ident :: bytes
  e_type :: nat
  e_machine :: nat
  e_version :: nat
  e_entry :: nat
  e_phoff :: nat
  e_shoff :: nat
  e_flags :: nat
  e_ehsize :: nat
  e_phentsize :: nat
  e_phnum :: nat
  e_shentsize :: nat
  e_shnum :: nat
  e_shstrndx :: nat

record ElfPhdr =
  p_type :: nat
  p_offset :: nat
  p_vaddr :: nat
  p_paddr :: nat
  p_filesz :: nat
  p_memsz :: nat
  p_flags :: nat
  p_align :: nat

record SegmentInfo =
  offset :: nat
  seg_size :: nat
  compressed :: SecureBool
  plaintext :: SecureBool

text \<open>One entry of the dictionary that \<open>sceutils.get_segments\<close> returns.\<close>

record SceSegment =
  idx :: nat
  key :: bytes
  iv :: bytes

section \<open>What the source imports: record layouts and external services\<close>

text \<open>
  \<open>scetypes\<close> is not part of the source file. Its class constants \<open>X.Size\<close>, its
  constructors \<open>X(data)\<close> (which may raise) and \<open>ElfHeader.pack\<close> are parameters of
  the model, collected in a \<open>layout\<close>.
\<close>

record layout =
  SceHeader_Size :: nat
  SceHeader_init :: "bytes \<Rightarrow> error + SceHeader"
  SelfHeader_Size :: nat
  SelfHeader_init :: "bytes \<Rightarrow> error + SelfHeader"
  AppInfoHeader_Size :: nat
  AppInfoHeader_init :: "bytes \<Rightarrow> error + AppInfoHeader"
  SceVersionInfo_Size :: nat
  SceVersionInfo_init :: "bytes \<Rightarrow> error + SceVersionInfo"
  SceControlInfo_Size :: nat
  SceControlInfo_init :: "bytes \<Rightarrow> error + SceControlInfo"
  SceControlInfoDigest256_Size :: nat
  SceControlInfoDigest256_init :: "bytes \<Rightarrow> error + SceControlInfoDigest256"
  SceControlInfoDRM_Size :: nat
  SceControlInfoDRM_init :: "bytes \<Rightarrow> error + SceControlInfoDRM"
  ElfHeader_Size :: nat
  ElfHeader_init :: "bytes \<Rightarrow> error + ElfHeader"
  ElfHeader_pack :: "ElfHeader \<Rightarrow> bytes"
  ElfPhdr_Size :: nat
  ElfPhdr_init :: "bytes \<Rightarrow> error + ElfPhdr"
  SegmentInfo_Size :: nat
  SegmentInfo_init :: "bytes \<Rightarrow> error + SegmentInfo"

text \<open>
  The external collaborators: \<open>sceutils.get_segments\<close> (it is given the input stream,
  that is its content and position, and the envelope header, system version, executable
  category, NPDRM type, context secret and silence flag; it returns the dictionary of
  segments or raises, and leaves the stream at some position), the AES block encryption
  of \<open>Crypto.Cipher\<close> (key, then 16-byte block) and \<open>zlib\<close>'s decompression.
  The dictionary is an association list read with \<open>map_of\<close>.
\<close>

type_synonym scesegs = "(nat \<times> SceSegment) list"

record services =
  get_segments ::
    "bytes \<Rightarrow> nat \<Rightarrow> SceHeader \<Rightarrow> int \<Rightarrow> int \<Rightarrow> int \<Rightarrow> bytes \<Rightarrow> bool \<Rightarrow> (error + scesegs) \<times> nat"
  AES_encrypt :: "bytes \<Rightarrow> bytes \<Rightarrow> bytes"
  zlib_decompress :: "bytes \<Rightarrow> error + bytes"

section \<open>The state of a conversion\<close>

text \<open>What \<open>print\<close> is given, one constructor for each \<open>print\<close> of the source.\<close>

datatype diag =
    Print_SceHeader SceHeader
  | Print_AppInfoHeader AppInfoHeader
  | Print_SceVersionInfo SceVersionInfo
  | Print_SceControlInfo SceControlInfo
  | Print_SceControlInfoDigest256 SceControlInfoDigest256
  | Print_SceControlInfoDRM SceControlInfoDRM
  | Print_ElfHeader ElfHeader
  | Print_ElfPhdr ElfPhdr
  | Print_SegmentInfo SegmentInfo
  | Print_Dumping nat
  | Print_pad_len int

text \<open>The arguments of one call of \<open>sceutils.get_segments\<close>.\<close>

record key_request =
  req_sce :: SceHeader
  req_sysver :: int
  req_self_type :: int
  req_npdrmtype :: int
  req_klictxt :: bytes
  req_silent :: bool

text \<open>
  The input stream \<open>inf\<close> is its \<open>content\<close> and its \<open>position\<close>; \<open>outf\<close> is the
  bytes written so far (the output is only ever appended to); \<open>stdout\<close> is what has
  been printed. \<open>at\<close>, \<open>elf_phdrs\<close>, \<open>segment_infos\<close> and \<open>encrypted\<close> are the
  local variables of \<open>self2elf\<close> that its loops update. Two fields record history and
  never influence a run: \<open>key_requests\<close> lists the calls of the key lookup, and
  \<open>visits\<close> the pairs \<open>(i, idx)\<close> of the iterations of the reconstruction loop.
\<close>

record state =
  content :: bytes
  position :: nat
  outf :: bytes
  stdout :: "diag list"
  at :: int
  elf_phdrs :: "nat \<rightharpoonup> ElfPhdr"
  segment_infos :: "nat \<rightharpoonup> SegmentInfo"
  encrypted :: bool
  key_requests :: "key_request list"
  visits :: "(nat \<times> nat) list"

type_synonym 'a action = "state \<Rightarrow> (error + 'a) \<times> state"

definition ok :: "'a \<Rightarrow> 'a action" where
  "ok x s = (Inr x, s)"

definition raise :: "error \<Rightarrow> 'a action" where
  "raise e s = (Inl e, s)"

text \<open>Sequencing: an exception ends the run with the state reached so far.\<close>

definition bind :: "'a action \<Rightarrow> ('a \<Rightarrow> 'b action) \<Rightarrow> 'b action" where
  "bind m f s = (case m s of (Inl e, s') \<Rightarrow> (Inl e, s') | (Inr x, s') \<Rightarrow> f x s')"

text \<open>\<open>for i in xs: body(i)\<close>\<close>

primrec for_each :: "('i \<Rightarrow> unit action) \<Rightarrow> 'i list \<Rightarrow> unit action" where
  "for_each body [] = ok ()"
| "for_each body (i # is) = bind (body i) (\<lambda>_. for_each body is)"

text \<open>
  \<open>inf.seek(off)\<close> and \<open>inf.read(n)\<close>: a read returns the bytes from the position
  on, fewer than \<open>n\<close> at the end of the file, and moves the position past them.
\<close>

definition seek :: "nat \<Rightarrow> unit action" where
  "seek off s = (Inr (), s\<lparr>position := off\<rparr>)"

definition read :: "nat \<Rightarrow> bytes action" where
  "read n s =
     (let dat = take n (drop (position s) (content s))
      in (Inr dat, s\<lparr>position := position s + length dat\<rparr>))"

definition construct :: "(bytes \<Rightarrow> error + 'a) \<Rightarrow> bytes \<Rightarrow> 'a action" where
  "construct init dat s = (init dat, s)"

definition lift :: "error + 'a \<Rightarrow> 'a action" where
  "lift r s = (r, s)"

definition outf_write :: "bytes \<Rightarrow> unit action" where
  "outf_write dat s = (Inr (), s\<lparr>outf := outf s @ dat\<rparr>)"

text \<open>\<open>if not silent: print(x)\<close>\<close>

definition print :: "bool \<Rightarrow> diag \<Rightarrow> unit action" where
  "print silent d s = (Inr (), if silent then s else s\<lparr>stdout := stdout s @ [d]\<rparr>)"

text \<open>Reading and updating the local variables.\<close>

definition get :: "(state \<Rightarrow> 'a) \<Rightarrow> 'a action" where
  "get f s = (Inr (f s), s)"

definition modify :: "(state \<Rightarrow> state) \<Rightarrow> unit action" where
  "modify f s = (Inr (), f s)"

text \<open>\<open>d[k]\<close> on a dictionary raises \<open>KeyError\<close> when the key is missing.\<close>

definition lookup :: "('k \<rightharpoonup> 'v) \<Rightarrow> 'k \<Rightarrow> 'v action" where
  "lookup d k = (case d k of None \<Rightarrow> raise KeyError | Some v \<Rightarrow> ok v)"

section \<open>self2elf\<close>

subsection \<open>Lines 19 to 34: envelope, loader header, app info, version info\<close>

definition read_headers ::
  "layout \<Rightarrow> bool \<Rightarrow> bool \<Rightarrow> (SceHeader \<times> SelfHeader \<times> AppInfoHeader) action" where
  "read_headers L silent ignore_sysver =
     bind (read (SceHeader_Size L)) (\<lambda>dat.
     bind (construct (SceHeader_init L) dat) (\<lambda>sce.
     bind (print silent (Print_SceHeader sce)) (\<lambda>_.
     bind (read (SelfHeader_Size L)) (\<lambda>dat.
     bind (construct (SelfHeader_init L) dat) (\<lambda>self_hdr.
     bind (seek (appinfo_offset self_hdr)) (\<lambda>_.
     bind (read (AppInfoHeader_Size L)) (\<lambda>dat.
     bind (construct (AppInfoHeader_init L) dat) (\<lambda>appinfo_hdr0.
     let appinfo_hdr =
       (if ignore_sysver then appinfo_hdr0\<lparr>sys_version := -1\<rparr> else appinfo_hdr0) in
     bind (print silent (Print_AppInfoHeader appinfo_hdr)) (\<lambda>_.
     bind (seek (sceversion_offset self_hdr)) (\<lambda>_.
     bind (read (SceVersionInfo_Size L)) (\<lambda>dat.
     bind (construct (SceVersionInfo_init L) dat) (\<lambda>verinfo_hdr.
     bind (print silent (Print_SceVersionInfo verinfo_hdr)) (\<lambda>_.
     ok (sce, self_hdr, appinfo_hdr))))))))))))))"

subsection \<open>Lines 17 and 36 to 61: the control-info chain\<close>

text \<open>
  The local variables the chain leaves behind: the two headers read into
  \<open>controlinfo_hdr\<close> (\<open>ci_first\<close>, \<open>ci_second\<close>), \<open>controldigest256\<close> and
  \<open>controlnpdrm\<close> (\<open>ci_digest\<close>, \<open>ci_drm\<close>: \<open>None\<close> when the assignment was not
  reached), \<open>ci_off\<close> and \<open>npdrmtype\<close>.
\<close>

record control_info =
  ci_first :: SceControlInfo
  ci_digest :: "SceControlInfoDigest256 option"
  ci_second :: SceControlInfo
  ci_drm :: "SceControlInfoDRM option"
  ci_offset :: nat
  ci_npdrmtype :: int

definition read_digest_slot ::
  "layout \<Rightarrow> bool \<Rightarrow> SelfHeader \<Rightarrow> SceControlInfo \<Rightarrow> (SceControlInfoDigest256 option \<times> nat) action" where
  "read_digest_slot L silent self_hdr controlinfo_hdr =
     (let ci_off = SceControlInfo_Size L in
      if ctl_type controlinfo_hdr = DIGEST_SHA256 then
        bind (seek (controlinfo_offset self_hdr + ci_off)) (\<lambda>_.
        let ci_off = ci_off + SceControlInfoDigest256_Size L in
        bind (read (SceControlInfoDigest256_Size L)) (\<lambda>dat.
        bind (construct (SceControlInfoDigest256_init L) dat) (\<lambda>controldigest256.
        bind (print silent (Print_SceControlInfoDigest256 controldigest256)) (\<lambda>_.
        ok (Some controldigest256, ci_off)))))
      else ok (None, ci_off))"

definition read_drm_slot ::
  "layout \<Rightarrow> bool \<Rightarrow> SelfHeader \<Rightarrow> SceControlInfo \<Rightarrow> nat \<Rightarrow>
     (SceControlInfoDRM option \<times> nat \<times> int) action" where
  "read_drm_slot L silent self_hdr controlinfo_hdr ci_off =
     (if ctl_type controlinfo_hdr = NPDRM_VITA then
        bind (seek (controlinfo_offset self_hdr + ci_off)) (\<lambda>_.
        let ci_off = ci_off + SceControlInfoDRM_Size L in
        bind (read (SceControlInfoDRM_Size L)) (\<lambda>dat.
        bind (construct (SceControlInfoDRM_init L) dat) (\<lambda>controlnpdrm.
        let npdrmtype = npdrm_type controlnpdrm in
        bind (print silent (Print_SceControlInfoDRM controlnpdrm)) (\<lambda>_.
        ok (Some controlnpdrm, ci_off, npdrmtype)))))
      else ok (None, ci_off, 0))"

definition read_control_info :: "layout \<Rightarrow> bool \<Rightarrow> SelfHeader \<Rightarrow> control_info action" where
  "read_control_info L silent self_hdr =
     bind (seek (controlinfo_offset self_hdr)) (\<lambda>_.
     bind (read (SceControlInfo_Size L)) (\<lambda>dat.
     bind (construct (SceControlInfo_init L) dat) (\<lambda>hdr1.
     bind (print silent (Print_SceControlInfo hdr1)) (\<lambda>_.
     bind (read_digest_slot L silent self_hdr hdr1) (\<lambda>(digest, ci_off).
     bind (seek (controlinfo_offset self_hdr + ci_off)) (\<lambda>_.
     bind (read (SceControlInfo_Size L)) (\<lambda>dat.
     bind (construct (SceControlInfo_init L) dat) (\<lambda>hdr2.
     bind (print silent (Print_SceControlInfo hdr2)) (\<lambda>_.
     let ci_off = ci_off + SceControlInfo_Size L in
     bind (read_drm_slot L silent self_hdr hdr2 ci_off) (\<lambda>(drm, ci_off, npdrmtype).
     ok \<lparr>ci_first = hdr1, ci_digest = digest, ci_second = hdr2,
         ci_drm = drm, ci_offset = ci_off, ci_npdrmtype = npdrmtype\<rparr>))))))))))"

subsection \<open>Lines 63 to 78: the executable header and the locals of the loops\<close>

definition adjust_elf_header :: "ElfHeader \<Rightarrow> ElfHeader" where
  "adjust_elf_header elf_hdr =
     (if e_machine elf_hdr = 0xf00d then elf_hdr\<lparr>e_shnum := 0, e_shoff := 0\<rparr> else elf_hdr)"

text \<open>
  Lines 75 to 78 bind the locals of the two loops: \<open>elf_phdrs = {}\<close>,
  \<open>segment_infos = {}\<close>, \<open>encrypted = False\<close>, \<open>at = ElfHeader.Size\<close>.
\<close>

definition init_locals :: "layout \<Rightarrow> unit action" where
  "init_locals L =
     modify (\<lambda>s. s\<lparr>elf_phdrs := Map.empty, segment_infos := Map.empty,
                     encrypted := False, at := int (ElfHeader_Size L)\<rparr>)"

definition copy_elf_header :: "layout \<Rightarrow> bool \<Rightarrow> SelfHeader \<Rightarrow> ElfHeader action" where
  "copy_elf_header L silent self_hdr =
     bind (seek (elf_offset self_hdr)) (\<lambda>_.
     bind (read (ElfHeader_Size L)) (\<lambda>dat.
     bind (construct (ElfHeader_init L) dat) (\<lambda>elf_hdr0.
     bind (print silent (Print_ElfHeader elf_hdr0)) (\<lambda>_.
     let elf_hdr = adjust_elf_header elf_hdr0 in
     bind (outf_write (ElfHeader_pack L elf_hdr)) (\<lambda>_.
     bind (init_locals L) (\<lambda>_.
     ok elf_hdr))))))"

subsection \<open>Lines 79 to 99: program headers and segment infos\<close>

definition get_segment :: "layout \<Rightarrow> bool \<Rightarrow> SelfHeader \<Rightarrow> nat \<Rightarrow> unit action" where
  "get_segment L silent self_hdr i =
     bind (seek (phdr_offset self_hdr + i * ElfPhdr_Size L)) (\<lambda>_.
     bind (read (ElfPhdr_Size L)) (\<lambda>dat.
     bind (construct (ElfPhdr_init L) dat) (\<lambda>phdr.
     bind (print silent (Print_ElfPhdr phdr)) (\<lambda>_.
     bind (modify (\<lambda>s. s\<lparr>elf_phdrs := (elf_phdrs s)(i \<mapsto> phdr)\<rparr>)) (\<lambda>_.
     bind (outf_write dat) (\<lambda>_.
     bind (modify (\<lambda>s. s\<lparr>at := at s + int (ElfPhdr_Size L)\<rparr>)) (\<lambda>_.
     bind (seek (segment_info_offset self_hdr + i * SegmentInfo_Size L)) (\<lambda>_.
     bind (read (SegmentInfo_Size L)) (\<lambda>dat.
     bind (construct (SegmentInfo_init L) dat) (\<lambda>segment_info.
     bind (print silent (Print_SegmentInfo segment_info)) (\<lambda>_.
     bind (modify (\<lambda>s. s\<lparr>segment_infos := (segment_infos s)(i \<mapsto> segment_info)\<rparr>)) (\<lambda>_.
     if plaintext segment_info = NO then modify (\<lambda>s. s\<lparr>encrypted := True\<rparr>)
     else ok ()))))))))))))"

subsection \<open>Lines 100 to 104: the key lookup\<close>

definition get_keys ::
  "services \<Rightarrow> SceHeader \<Rightarrow> AppInfoHeader \<Rightarrow> int \<Rightarrow> bytes \<Rightarrow> bool \<Rightarrow> scesegs action" where
  "get_keys X sce appinfo_hdr npdrmtype klictxt silent s =
     (if encrypted s then
        (case get_segments X (content s) (position s) sce (sys_version appinfo_hdr)
                (self_type appinfo_hdr) npdrmtype klictxt silent of
           (r, pos) \<Rightarrow>
             (r, s\<lparr>position := pos,
                    key_requests := key_requests s @
                      [\<lparr>req_sce = sce, req_sysver = sys_version appinfo_hdr,
                        req_self_type = self_type appinfo_hdr, req_npdrmtype = npdrmtype,
                        req_klictxt = klictxt, req_silent = silent\<rparr>]\<rparr>))
      else (Inr [], s))"

subsection \<open>Lines 129 to 133: counter mode\<close>

text \<open>
  \<open>int.from_bytes(b, "big")\<close>, and the cipher
  \<open>AES.new(key, AES.MODE_CTR, counter=Counter.new(128, initial_value=v))\<close>: the whole
  16-byte block is the counter, written big-endian; block \<open>j\<close> of the key stream is the
  encryption of \<open>v + j\<close> (modulo \<open>2 ^ 128\<close>), and \<open>decrypt\<close> is the exclusive or
  with the key stream. The library rejects a key that is not 16, 24 or 32 bytes long and
  an initial value that does not fit 128 bits.
\<close>

definition int_from_bytes_big :: "bytes \<Rightarrow> nat" where
  "int_from_bytes_big bs = foldl (\<lambda>a b. a * 256 + unat b) 0 bs"

primrec to_bytes_big :: "nat \<Rightarrow> nat \<Rightarrow> bytes" where
  "to_bytes_big 0 v = []"
| "to_bytes_big (Suc n) v = to_bytes_big n (v div 256) @ [of_nat v]"

definition counter_block :: "nat \<Rightarrow> nat \<Rightarrow> bytes" where
  "counter_block v j = to_bytes_big 16 ((v + j) mod 2 ^ 128)"

definition keystream :: "services \<Rightarrow> bytes \<Rightarrow> nat \<Rightarrow> nat \<Rightarrow> bytes" where
  "keystream X k v n =
     concat (map (\<lambda>j. AES_encrypt X k (counter_block v j)) [0..<(n + 15) div 16])"

definition AES_CTR_decrypt :: "services \<Rightarrow> bytes \<Rightarrow> nat \<Rightarrow> bytes \<Rightarrow> error + bytes" where
  "AES_CTR_decrypt X k v dat =
     (if length k \<notin> {16, 24, 32} \<or> 2 ^ 128 \<le> v then Inl CipherError
      else Inr (map2 (XOR) dat (keystream X k v (length dat))))"

subsection \<open>Lines 106 to 142: the reconstruction loop\<close>

text \<open>Lines 107 to 110. \<open>if scesegs:\<close> tests that the dictionary is not empty.\<close>

definition resolve_idx :: "scesegs \<Rightarrow> nat \<Rightarrow> nat action" where
  "resolve_idx scesegs i =
     (if scesegs \<noteq> [] then bind (lookup (map_of scesegs) i) (\<lambda>seg. ok (idx seg))
      else ok i)"

text \<open>Lines 116 to 123.\<close>

definition write_padding :: "ElfPhdr \<Rightarrow> unit action" where
  "write_padding phdr =
     bind (get at) (\<lambda>at0.
     let pad_len = int (p_offset phdr) - at0 in
     bind (if pad_len < 0 then
             bind (print False (Print_pad_len pad_len)) (\<lambda>_. raise LayoutError)
           else ok ()) (\<lambda>_.
     bind (outf_write (replicate (nat pad_len) 0)) (\<lambda>_.
     modify (\<lambda>s. s\<lparr>at := at s + pad_len\<rparr>))))"

text \<open>Lines 125 to 138: the payload of the segment, read, decrypted, decompressed.\<close>

definition decrypt_segment :: "services \<Rightarrow> scesegs \<Rightarrow> nat \<Rightarrow> SegmentInfo \<Rightarrow> bytes \<Rightarrow> bytes action" where
  "decrypt_segment X scesegs i segment_info dat =
     (if plaintext segment_info = NO then
        bind (lookup (map_of scesegs) i) (\<lambda>seg.
        lift (AES_CTR_decrypt X (key seg) (int_from_bytes_big (iv seg)) dat))
      else ok dat)"

definition decompress_segment :: "services \<Rightarrow> SegmentInfo \<Rightarrow> bytes \<Rightarrow> bytes action" where
  "decompress_segment X segment_info dat =
     (if compressed segment_info = YES then lift (zlib_decompress X dat) else ok dat)"

definition segment_payload :: "services \<Rightarrow> scesegs \<Rightarrow> nat \<Rightarrow> nat \<Rightarrow> bytes action" where
  "segment_payload X scesegs i idx' =
     bind (get segment_infos) (\<lambda>infos.
     bind (lookup infos idx') (\<lambda>segment_info.
     bind (seek (offset segment_info)) (\<lambda>_.
     bind (read (seg_size segment_info)) (\<lambda>dat.
     bind (decrypt_segment X scesegs i segment_info dat) (\<lambda>dat.
     decompress_segment X segment_info dat)))))"

definition generate_segment :: "services \<Rightarrow> bool \<Rightarrow> scesegs \<Rightarrow> nat \<Rightarrow> unit action" where
  "generate_segment X silent scesegs i =
     bind (resolve_idx scesegs i) (\<lambda>idx'.
     bind (modify (\<lambda>s. s\<lparr>visits := visits s @ [(i, idx')]\<rparr>)) (\<lambda>_.
     bind (get elf_phdrs) (\<lambda>phdrs.
     bind (lookup phdrs idx') (\<lambda>phdr.
     if p_filesz phdr = 0 then ok ()
     else
       bind (print silent (Print_Dumping idx')) (\<lambda>_.
       bind (write_padding phdr) (\<lambda>_.
       bind (segment_payload X scesegs i idx') (\<lambda>dat.
       bind (outf_write dat) (\<lambda>_.
       modify (\<lambda>s. s\<lparr>at := at s + int (length dat)\<rparr>)))))))))"

subsection \<open>The whole function\<close>

text \<open>Lines 79 to 142: both loops, with the key lookup between them.\<close>

definition convert_segments ::
  "layout \<Rightarrow> services \<Rightarrow> bytes \<Rightarrow> bool \<Rightarrow> SceHeader \<Rightarrow> SelfHeader \<Rightarrow> AppInfoHeader \<Rightarrow>
     int \<Rightarrow> ElfHeader \<Rightarrow> unit action" where
  "convert_segments L X klictxt silent sce self_hdr appinfo_hdr npdrmtype elf_hdr =
     bind (for_each (get_segment L silent self_hdr) [0..<e_phnum elf_hdr]) (\<lambda>_.
     bind (get_keys X sce appinfo_hdr npdrmtype klictxt silent) (\<lambda>scesegs.
     for_each (generate_segment X silent scesegs) [0..<e_phnum elf_hdr]))"

definition self2elf :: "layout \<Rightarrow> services \<Rightarrow> bytes \<Rightarrow> bool \<Rightarrow> bool \<Rightarrow> unit action" where
  "self2elf L X klictxt silent ignore_sysver =
     bind (read_headers L silent ignore_sysver) (\<lambda>(sce, self_hdr, appinfo_hdr).
     bind (read_control_info L silent self_hdr) (\<lambda>ctl.
     bind (copy_elf_header L silent self_hdr) (\<lambda>elf_hdr.
     convert_segments L X klictxt silent sce self_hdr appinfo_hdr (ci_npdrmtype ctl)
       elf_hdr)))"

text \<open>
  A conversion of the file \<open>data\<close>, opened at position \<open>pos\<close>, into an empty
  output.
\<close>

definition start :: "bytes \<Rightarrow> nat \<Rightarrow> state" where
  "start data pos =
     \<lparr>content = data, position = pos, outf = [], stdout = [], at = 0,
      elf_phdrs = Map.empty, segment_infos = Map.empty, encrypted = False,
      key_requests = [], visits = []\<rparr>"

section \<open>A layout and two containers to run the model on\<close>

text \<open>
  \<open>sample_layout\<close> instantiates the parameters: the executable header and the program
  header are laid out as in ELF32 (little-endian, 52 and 32 bytes); the records of the
  container itself are reduced to one byte for each field the source reads. Every
  constructor rejects data that is not of the record's size.
\<close>

definition le :: "bytes \<Rightarrow> nat" where
  "le bs = foldr (\<lambda>b a. unat b + 256 * a) bs 0"

definition le16 :: "nat \<Rightarrow> bytes" where
  "le16 v = [of_nat v, of_nat (v div 256)]"

definition le32 :: "nat \<Rightarrow> bytes" where
  "le32 v = [of_nat v, of_nat (v div 256), of_nat (v div 65536), of_nat (v div 16777216)]"

definition field :: "bytes \<Rightarrow> nat \<Rightarrow> nat \<Rightarrow> nat" where
  "field dat off n = le (take n (drop off dat))"

definition sized :: "nat \<Rightarrow> (bytes \<Rightarrow> 'a) \<Rightarrow> bytes \<Rightarrow> error + 'a" where
  "sized n f dat = (if length dat = n then Inr (f dat) else Inl RecordError)"

definition sample_SelfHeader :: "bytes \<Rightarrow> SelfHeader" where
  "sample_SelfHeader dat =
     \<lparr>appinfo_offset = field dat 0 1, elf_offset = field dat 1 1, phdr_offset = field dat 2 1,
      segment_info_offset = field dat 3 1, sceversion_offset = field dat 4 1,
      controlinfo_offset = field dat 5 1\<rparr>"

definition sample_AppInfoHeader :: "bytes \<Rightarrow> AppInfoHeader" where
  "sample_AppInfoHeader dat =
     \<lparr>sys_version = int (field dat 0 1), self_type = int (field dat 1 1)\<rparr>"

definition sample_ControlType :: "nat \<Rightarrow> ControlType" where
  "sample_ControlType n =
     (if n = 4 then DIGEST_SHA256 else if n = 5 then NPDRM_VITA else OTHER_CONTROL n)"

definition sample_SecureBool :: "nat \<Rightarrow> SecureBool" where
  "sample_SecureBool n = (if n = 1 then NO else if n = 2 then YES else UNUSED)"

definition sample_ElfHeader :: "bytes \<Rightarrow> ElfHeader" where
  "sample_ElfHeader dat =
     \<lparr>e_ident = take 16 dat, e_type = field dat 16 2, e_machine = field dat 18 2,
      e_version = field dat 20 4, e_entry = field dat 24 4, e_phoff = field dat 28 4,
      e_shoff = field dat 32 4, e_flags = field dat 36 4, e_ehsize = field dat 40 2,
      e_phentsize = field dat 42 2, e_phnum = field dat 44 2, e_shentsize = field dat 46 2,
      e_shnum = field dat 48 2, e_shstrndx = field dat 50 2\<rparr>"

definition sample_ElfHeader_pack :: "ElfHeader \<Rightarrow> bytes" where
  "sample_ElfHeader_pack h =
     e_ident h @ le16 (e_type h) @ le16 (e_machine h) @ le32 (e_version h) @
     le32 (e_entry h) @ le32 (e_phoff h) @ le32 (e_shoff h) @ le32 (e_flags h) @
     le16 (e_ehsize h) @ le16 (e_phentsize h) @ le16 (e_phnum h) @
     le16 (e_shentsize h) @ le16 (e_shnum h) @ le16 (e_shstrndx h)"

definition sample_ElfPhdr :: "bytes \<Rightarrow> ElfPhdr" where
  "sample_ElfPhdr dat =
     \<lparr>p_type = field dat 0 4, p_offset = field dat 4 4, p_vaddr = field dat 8 4,
      p_paddr = field dat 12 4, p_filesz = field dat 16 4, p_memsz = field dat 20 4,
      p_flags = field dat 24 4, p_align = field dat 28 4\<rparr>"

definition sample_ElfPhdr_pack :: "ElfPhdr \<Rightarrow> bytes" where
  "sample_ElfPhdr_pack p =
     le32 (p_type p) @ le32 (p_offset p) @ le32 (p_vaddr p) @ le32 (p_paddr p) @
     le32 (p_filesz p) @ le32 (p_memsz p) @ le32 (p_flags p) @ le32 (p_align p)"

definition sample_SegmentInfo :: "bytes \<Rightarrow> SegmentInfo" where
  "sample_SegmentInfo dat =
     \<lparr>offset = field dat 0 1, seg_size = field dat 1 1,
      compressed = sample_SecureBool (field dat 2 1),
      plaintext = sample_SecureBool (field dat 3 1)\<rparr>"

definition sample_layout :: layout where
  "sample_layout =
     \<lparr>SceHeader_Size = 4, SceHeader_init = sized 4 SceHeader,
      SelfHeader_Size = 6, SelfHeader_init = sized 6 sample_SelfHeader,
      AppInfoHeader_Size = 2, AppInfoHeader_init = sized 2 sample_AppInfoHeader,
      SceVersionInfo_Size = 1, SceVersionInfo_init = sized 1 SceVersionInfo,
      SceControlInfo_Size = 1,
      SceControlInfo_init = sized 1 (\<lambda>dat. \<lparr>ctl_type = sample_ControlType (field dat 0 1)\<rparr>),
      SceControlInfoDigest256_Size = 2,
      SceControlInfoDigest256_init = sized 2 SceControlInfoDigest256,
      SceControlInfoDRM_Size = 1,
      SceControlInfoDRM_init = sized 1 (\<lambda>dat. \<lparr>npdrm_type = int (field dat 0 1)\<rparr>),
      ElfHeader_Size = 52, ElfHeader_init = sized 52 sample_ElfHeader,
      ElfHeader_pack = sample_ElfHeader_pack,
      ElfPhdr_Size = 32, ElfPhdr_init = sized 32 sample_ElfPhdr,
      SegmentInfo_Size = 4, SegmentInfo_init = sized 4 sample_SegmentInfo\<rparr>"

text \<open>
  The executable image the sample containers wrap: two segments, of three bytes at file
  offset 120 and of two bytes at file offset 128, after the header (52 bytes) and the
  two program headers (64 bytes).
\<close>

definition sample_elf_hdr :: "nat \<Rightarrow> nat \<Rightarrow> nat \<Rightarrow> ElfHeader" where
  "sample_elf_hdr machine shoff shnum =
     \<lparr>e_ident = [0x7f, 0x45, 0x4c, 0x46, 1, 1, 1, 0, 0, 0, 0, 0, 0, 0, 0, 0],
      e_type = 2, e_machine = machine, e_version = 1, e_entry = 0, e_phoff = 52,
      e_shoff = shoff, e_flags = 0, e_ehsize = 52, e_phentsize = 32, e_phnum = 2,
      e_shentsize = 40, e_shnum = shnum, e_shstrndx = 0\<rparr>"

definition sample_phdr :: "nat \<Rightarrow> nat \<Rightarrow> ElfPhdr" where
  "sample_phdr off filesz =
     \<lparr>p_type = 1, p_offset = off, p_vaddr = 0, p_paddr = 0, p_filesz = filesz,
      p_memsz = filesz, p_flags = 5, p_align = 4\<rparr>"

text \<open>
  A container: envelope at 0, loader header at 4, app info at 10, version info at 12,
  control-info chain at 13 (\<open>chain\<close>, seven bytes with its padding), executable header at 20,
  program headers at 72, segment infos at 136, segment data at 144 and 147.
\<close>

definition sample_container ::
  "bytes \<Rightarrow> ElfHeader \<Rightarrow> ElfPhdr \<Rightarrow> ElfPhdr \<Rightarrow> bytes \<Rightarrow> bytes \<Rightarrow> bytes \<Rightarrow> bytes" where
  "sample_container chain hdr ph0 ph1 info0 info1 payload =
     [0x53, 0x43, 0x45, 0] @ [10, 20, 72, 136, 12, 13] @ [3, 1] @ [7] @
     chain @
     sample_ElfHeader_pack hdr @ sample_ElfPhdr_pack ph0 @ sample_ElfPhdr_pack ph1 @
     info0 @ info1 @ payload"

text \<open>Plaintext and uncompressed, with a digest and an NPDRM control record.\<close>

definition plain_container :: bytes where
  "plain_container =
     sample_container [4, 0xaa, 0xbb, 5, 9, 0, 0] (sample_elf_hdr 0x28 0 0)
       (sample_phdr 120 3) (sample_phdr 128 2) [144, 3, 1, 2] [147, 2, 1, 2]
       [0x11, 0x22, 0x33, 0x44, 0x55]"

text \<open>
  The external services of the samples: the key lookup returns the dictionary \<open>segs\<close>
  and leaves the stream where it was; the block cipher returns 16 copies of the sum of
  the bytes of the key and of the block; decompression repeats the tail of its input as
  often as its first byte says.
\<close>

definition sample_services :: "scesegs \<Rightarrow> services" where
  "sample_services segs =
     \<lparr>get_segments = (\<lambda>data pos sce sysver selftype npdrm klictxt quiet. (Inr segs, pos)),
      AES_encrypt = (\<lambda>k block. replicate 16 (sum_list (k @ block))),
      zlib_decompress =
        (\<lambda>dat. case dat of [] \<Rightarrow> Inl InflateError
                | n # rest \<Rightarrow> Inr (concat (replicate (unat n) rest)))\<rparr>"

text \<open>The executable header alone, as a file, with the loader header that points at it.\<close>

definition header_only :: "ElfHeader \<Rightarrow> state" where
  "header_only h = start (sample_ElfHeader_pack h) 0"

definition self_hdr_zero :: SelfHeader where
  "self_hdr_zero =
     \<lparr>appinfo_offset = 0, elf_offset = 0, phdr_offset = 0, segment_info_offset = 0,
      sceversion_offset = 0, controlinfo_offset = 0\<rparr>"

text \<open>
  A state inside the reconstruction loop: the file \<open>data\<close>, one program header and one
  segment info under index 0, and the cursor \<open>c\<close>.
\<close>

definition loop_state :: "bytes \<Rightarrow> ElfPhdr \<Rightarrow> SegmentInfo \<Rightarrow> int \<Rightarrow> state" where
  "loop_state data phdr si c =
     (start data 0)\<lparr>at := c, elf_phdrs := [0 \<mapsto> phdr], segment_infos := [0 \<mapsto> si]\<rparr>"

definition sample_seg :: SceSegment where
  "sample_seg = \<lparr>idx = 0, key = replicate 16 1, iv = replicate 15 0 @ [5]\<rparr>"

definition plain_info :: "nat \<Rightarrow> nat \<Rightarrow> SegmentInfo" where
  "plain_info off n = \<lparr>offset = off, seg_size = n, compressed = NO, plaintext = YES\<rparr>"

definition encrypted_info :: "nat \<Rightarrow> nat \<Rightarrow> SegmentInfo" where
  "encrypted_info off n = \<lparr>offset = off, seg_size = n, compressed = NO, plaintext = NO\<rparr>"

section \<open>Comparing two runs\<close>

text \<open>
  Two states that differ at most in what has been printed and in the record of the key
  requests, and two actions that, started in such states, end with the same result in
  such states.
\<close>

definition quiet_eq :: "state \<Rightarrow> state \<Rightarrow> bool" where
  "quiet_eq s s' \<longleftrightarrow>
     content s = content s' \<and> position s = position s' \<and> outf s = outf s' \<and>
     at s = at s' \<and> elf_phdrs s = elf_phdrs s' \<and> segment_infos s = segment_infos s' \<and>
     encrypted s = encrypted s' \<and> visits s = visits s'"

definition sim :: "'a action \<Rightarrow> 'a action \<Rightarrow> bool" where
  "sim m m' \<longleftrightarrow>
     (\<forall>s s'. quiet_eq s s' \<longrightarrow>
        fst (m s) = fst (m' s') \<and> quiet_eq (snd (m s)) (snd (m' s')))"

section \<open>The key material\<close>




section \<open>The executable image\<close>

text \<open>
  The image that a container wraps, in the words of the spec: the header, the
  program-header table, and then the segment bytes, each at its file offset, with zero
  padding between them. \<open>place\<close> appends one segment, given as its file offset and its
  bytes, to what precedes it; there is no image (\<open>None\<close>) when a file offset lies
  before the end of what precedes it, that is when a padding would be negative.
\<close>

definition place :: "bytes option \<Rightarrow> nat \<times> bytes \<Rightarrow> bytes option" where
  "place img seg =
     (case img of
        None \<Rightarrow> None
      | Some b \<Rightarrow>
          if fst seg < length b then None
          else Some (b @ replicate (fst seg - length b) 0 @ snd seg))"

definition elf_image :: "bytes \<Rightarrow> bytes list \<Rightarrow> (nat \<times> bytes) list \<Rightarrow> bytes option" where
  "elf_image hdr phdrs segs = foldl place (Some (hdr @ concat phdrs)) segs"

text \<open>The sample container with the machine type \<open>0xF00D\<close> and section headers.\<close>

definition sentinel_container :: bytes where
  "sentinel_container =
     sample_container [4, 0xaa, 0xbb, 5, 9, 0, 0] (sample_elf_hdr 0xf00d 7 3)
       (sample_phdr 120 3) (sample_phdr 128 2) [144, 3, 1, 2] [147, 2, 1, 2]
       [0x11, 0x22, 0x33, 0x44, 0x55]"

section \<open>Unfolding the model\<close>

lemmas monad_defs =
  bind_def ok_def raise_def seek_def read_def construct_def lift_def outf_write_def
  print_def get_def modify_def lookup_def

lemmas sample_defs =
  sample_layout_def sized_def sample_SelfHeader_def sample_AppInfoHeader_def
  sample_ControlType_def sample_SecureBool_def sample_ElfHeader_def
  sample_ElfHeader_pack_def sample_ElfPhdr_def sample_ElfPhdr_pack_def
  sample_SegmentInfo_def sample_elf_hdr_def sample_phdr_def sample_container_def
  sample_services_def le_def le16_def le32_def field_def start_def

section \<open>The executable header (lines 63 to 72)\<close>

lemma copy_elf_header_result:
  assumes "ElfHeader_init L (take (ElfHeader_Size L) (drop (elf_offset self_hdr) (content s))) = Inr h"
  shows "fst (copy_elf_header L silent self_hdr s) = Inr (adjust_elf_header h)"
    and "outf (snd (copy_elf_header L silent self_hdr s)) =
           outf s @ ElfHeader_pack L (adjust_elf_header h)"
    and "at (snd (copy_elf_header L silent self_hdr s)) = int (ElfHeader_Size L)"
  using assms by (simp_all add: copy_elf_header_def init_locals_def monad_defs Let_def)

text \<open>
  C7. When the machine type of the embedded executable header is \<open>0xF00D\<close>, the header
  written to the output has section-header count and section-header offset zero,
  whatever they were, and every other field is the input's; otherwise every field,
  those two included, is the input's. The header written is the packing of
  \<open>adjust_elf_header h\<close>, where \<open>h\<close> is the header decoded from the input.
\<close>

theorem sentinel_zeroes_section_fields:
  assumes "ElfHeader_init L (take (ElfHeader_Size L) (drop (elf_offset self_hdr) (content s))) = Inr h"
  shows "outf (snd (copy_elf_header L silent self_hdr s)) =
           outf s @ ElfHeader_pack L (adjust_elf_header h) \<and>
         (if e_machine h = 0xf00d
          then e_shnum (adjust_elf_header h) = 0 \<and> e_shoff (adjust_elf_header h) = 0
          else e_shnum (adjust_elf_header h) = e_shnum h \<and>
               e_shoff (adjust_elf_header h) = e_shoff h) \<and>
         e_ident (adjust_elf_header h) = e_ident h \<and>
         e_type (adjust_elf_header h) = e_type h \<and>
         e_machine (adjust_elf_header h) = e_machine h \<and>
         e_version (adjust_elf_header h) = e_version h \<and>
         e_entry (adjust_elf_header h) = e_entry h \<and>
         e_phoff (adjust_elf_header h) = e_phoff h \<and>
         e_flags (adjust_elf_header h) = e_flags h \<and>
         e_ehsize (adjust_elf_header h) = e_ehsize h \<and>
         e_phentsize (adjust_elf_header h) = e_phentsize h \<and>
         e_phnum (adjust_elf_header h) = e_phnum h \<and>
         e_shentsize (adjust_elf_header h) = e_shentsize h \<and>
         e_shstrndx (adjust_elf_header h) = e_shstrndx h"
  using copy_elf_header_result(2) [OF assms] by (simp add: adjust_elf_header_def)

theorem sentinel_zeroes_section_fields_witness:
  "outf (snd (copy_elf_header sample_layout True self_hdr_zero
                (header_only (sample_elf_hdr 0xf00d 7 3)))) =
   sample_ElfHeader_pack (sample_elf_hdr 0xf00d 0 0)"
proof -
  have h: "ElfHeader_init sample_layout
             (take (ElfHeader_Size sample_layout)
                (drop (elf_offset self_hdr_zero)
                   (content (header_only (sample_elf_hdr 0xf00d 7 3))))) =
           Inr (sample_elf_hdr 0xf00d 7 3)"
    by (simp add: header_only_def self_hdr_zero_def sample_defs)
  from sentinel_zeroes_section_fields [OF h, of True]
  show ?thesis
    by (simp add: header_only_def start_def adjust_elf_header_def sample_elf_hdr_def
        sample_layout_def)
qed

section \<open>Counter mode (lines 129 to 133)\<close>

lemma int_from_bytes_big_snoc:
  "int_from_bytes_big (bs @ [b]) = int_from_bytes_big bs * 256 + unat b"
  by (simp add: int_from_bytes_big_def)

lemma length_to_bytes_big: "length (to_bytes_big n v) = n"
  by (induction n arbitrary: v) simp_all

lemma int_from_bytes_big_to_bytes_big:
  "int_from_bytes_big (to_bytes_big n v) = v mod 256 ^ n"
proof (induction n arbitrary: v)
  case 0
  show ?case by (simp add: int_from_bytes_big_def)
next
  case (Suc n)
  have "unat (of_nat v :: byte) = v mod 256"
    by (simp add: unat_of_nat)
  then have "int_from_bytes_big (to_bytes_big (Suc n) v) = (v div 256) mod 256 ^ n * 256 + v mod 256"
    by (simp add: int_from_bytes_big_snoc Suc.IH)
  also have "\<dots> = v mod 256 ^ Suc n"
    by (simp add: mod_mult2_eq ac_simps)
  finally show ?case .
qed

lemma counter_block_value:
  "length (counter_block v j) = 16"
  "int_from_bytes_big (counter_block v j) = (v + j) mod 2 ^ 128"
proof -
  show "length (counter_block v j) = 16"
    by (simp add: counter_block_def length_to_bytes_big)
  have "(256::nat) ^ 16 = 2 ^ 128" by simp
  then show "int_from_bytes_big (counter_block v j) = (v + j) mod 2 ^ 128"
    by (simp add: counter_block_def int_from_bytes_big_to_bytes_big)
qed


lemma length_concat_blocks:
  "\<forall>j. length (f j) = 16 \<Longrightarrow> length (concat (map f [0..<m])) = 16 * m"
  by (induction m) simp_all

lemma nth_concat_blocks:
  assumes "\<forall>j. length (f j) = (16::nat)" and "n < 16 * m"
  shows "concat (map f [0..<m]) ! n = f (n div 16) ! (n mod 16)"
  using assms(2)
proof (induction m)
  case 0
  then show ?case by simp
next
  case (Suc m)
  have len: "length (concat (map f [0..<m])) = 16 * m"
    using assms(1) by (rule length_concat_blocks)
  show ?case
  proof (cases "n < 16 * m")
    case True
    with Suc.IH len show ?thesis by (simp add: nth_append)
  next
    case False
    with Suc.prems have a: "16 * m \<le> n" "n < 16 * m + 16" by simp_all
    then have d: "n div 16 = m" by simp
    from a have r: "n - 16 * m = n mod 16"
      using d by (metis minus_mult_div_eq_mod)
    from False len d r show ?thesis by (simp add: nth_append)
  qed
qed

lemma AES_CTR_decrypt_bytes:
  assumes blk: "\<forall>k b. length (AES_encrypt X k b) = 16"
    and dec: "AES_CTR_decrypt X k v dat = Inr d"
  shows "length d = length dat"
    and "n < length dat \<Longrightarrow>
           d ! n = dat ! n XOR AES_encrypt X k (counter_block v (n div 16)) ! (n mod 16)"
proof -
  let ?f = "\<lambda>j. AES_encrypt X k (counter_block v j)"
  let ?m = "(length dat + 15) div 16"
  have d: "d = map2 (XOR) dat (concat (map ?f [0..<?m]))"
    using dec by (simp add: AES_CTR_decrypt_def keystream_def split: if_splits)
  have len: "length (concat (map ?f [0..<?m])) = 16 * ?m"
    using blk by (intro length_concat_blocks) simp
  have le: "length dat \<le> 16 * ?m" by presburger
  show "length d = length dat" using d len le by simp
  assume n: "n < length dat"
  with le have "n < 16 * ?m" by linarith
  then have "concat (map ?f [0..<?m]) ! n = ?f (n div 16) ! (n mod 16)"
    using blk by (intro nth_concat_blocks) simp_all
  with n len le show "d ! n = dat ! n XOR ?f (n div 16) ! (n mod 16)"
    by (simp add: d)
qed

section \<open>One iteration of the reconstruction loop (lines 107 to 142)\<close>

lemma resolve_idx_state: "snd (resolve_idx segs i s) = s"
  by (simp add: resolve_idx_def monad_defs split: option.splits)

lemma segment_payload_fst:
  assumes "segment_infos s j = Some si"
  shows "fst (segment_payload X segs i j s) =
     (if plaintext si = NO then
        (case map_of segs i of
           None \<Rightarrow> Inl KeyError
         | Some seg \<Rightarrow>
             (case AES_CTR_decrypt X (key seg) (int_from_bytes_big (iv seg))
                     (take (seg_size si) (drop (offset si) (content s))) of
                Inl e \<Rightarrow> Inl e
              | Inr d \<Rightarrow> if compressed si = YES then zlib_decompress X d else Inr d))
      else if compressed si = YES
        then zlib_decompress X (take (seg_size si) (drop (offset si) (content s)))
        else Inr (take (seg_size si) (drop (offset si) (content s))))"
  using assms
  by (simp add: segment_payload_def decrypt_segment_def decompress_segment_def monad_defs
      Let_def split: option.splits sum.splits)

lemma segment_payload_frame:
  "outf (snd (segment_payload X segs i j s)) = outf s"
  "at (snd (segment_payload X segs i j s)) = at s"
  "content (snd (segment_payload X segs i j s)) = content s"
  "stdout (snd (segment_payload X segs i j s)) = stdout s"
  "visits (snd (segment_payload X segs i j s)) = visits s"
  "key_requests (snd (segment_payload X segs i j s)) = key_requests s"
  "elf_phdrs (snd (segment_payload X segs i j s)) = elf_phdrs s"
  "segment_infos (snd (segment_payload X segs i j s)) = segment_infos s"
  by (simp_all add: segment_payload_def decrypt_segment_def decompress_segment_def monad_defs
      Let_def split: option.splits sum.splits)

lemma segment_payload_cong:
  assumes "content s' = content s" "segment_infos s' = segment_infos s"
  shows "fst (segment_payload X segs i j s') = fst (segment_payload X segs i j s)"
  using assms
  by (simp add: segment_payload_def decrypt_segment_def decompress_segment_def monad_defs
      Let_def split: option.splits sum.splits)

text \<open>
  C5. For a segment the loop visits whose file size is not zero, the padding is the
  file offset of its program header minus the cursor. When that is negative the
  iteration raises the layout error, having written nothing of the segment (the output
  and the cursor are as before: the value is not clamped to zero). Otherwise exactly
  that many zero bytes are written, and the payload follows them when it can be
  produced.
\<close>

theorem negative_padding_is_fatal:
  assumes "fst (resolve_idx segs i s) = Inr j"
    and "elf_phdrs s j = Some phdr"
    and "p_filesz phdr \<noteq> 0"
  shows
    "(int (p_offset phdr) - at s < 0 \<longrightarrow>
        fst (generate_segment X silent segs i s) = Inl LayoutError \<and>
        outf (snd (generate_segment X silent segs i s)) = outf s \<and>
        at (snd (generate_segment X silent segs i s)) = at s) \<and>
     (0 \<le> int (p_offset phdr) - at s \<longrightarrow>
        (case fst (segment_payload X segs i j s) of
           Inl e \<Rightarrow>
             fst (generate_segment X silent segs i s) = Inl e \<and>
             outf (snd (generate_segment X silent segs i s)) =
               outf s @ replicate (nat (int (p_offset phdr) - at s)) 0
         | Inr dat \<Rightarrow>
             fst (generate_segment X silent segs i s) = Inr () \<and>
             outf (snd (generate_segment X silent segs i s)) =
               outf s @ replicate (nat (int (p_offset phdr) - at s)) 0 @ dat \<and>
             at (snd (generate_segment X silent segs i s)) =
               at s + (int (p_offset phdr) - at s) + int (length dat)))"
proof -
  have r: "resolve_idx segs i s = (Inr j, s)"
    using assms(1) resolve_idx_state [of segs i s] by (metis prod.collapse)
  let ?s1 = "s\<lparr>visits := visits s @ [(i, j)]\<rparr>"
  let ?s2 = "if silent then ?s1 else ?s1\<lparr>stdout := stdout ?s1 @ [Print_Dumping j]\<rparr>"
  let ?pad = "int (p_offset phdr) - at s"
  let ?s3 = "?s2\<lparr>outf := outf s @ replicate (nat ?pad) 0, at := at s + ?pad\<rparr>"
  have neg: "?pad < 0 \<Longrightarrow> ?thesis"
    using r assms(2,3)
    by (simp add: generate_segment_def write_padding_def monad_defs Let_def)
  have pay: "fst (segment_payload X segs i j ?s3) = fst (segment_payload X segs i j s)"
    by (rule segment_payload_cong) simp_all
  have pos: "0 \<le> ?pad \<Longrightarrow> generate_segment X silent segs i s =
      (case segment_payload X segs i j ?s3 of
         (Inl e, s') \<Rightarrow> (Inl e, s')
       | (Inr dat, s') \<Rightarrow> (Inr (), s'\<lparr>outf := outf s' @ dat, at := at s' + int (length dat)\<rparr>))"
    using r assms(2,3)
    by (simp add: generate_segment_def write_padding_def monad_defs Let_def
        split: prod.splits sum.splits)
  have "0 \<le> ?pad \<Longrightarrow> ?thesis"
  proof -
    assume p: "0 \<le> ?pad"
    obtain res s' where sp: "segment_payload X segs i j ?s3 = (res, s')"
      by (cases "segment_payload X segs i j ?s3")
    have fr: "outf s' = outf ?s3" "at s' = at ?s3"
      using segment_payload_frame(1,2) [of X segs i j ?s3] sp by simp_all
    have res: "fst (segment_payload X segs i j s) = res"
      using pay sp by simp
    show ?thesis
      using p pos [OF p] sp fr res by (cases res) (simp_all split: if_splits)
  qed
  with neg show ?thesis by linarith
qed

theorem negative_padding_is_fatal_witness:
  "fst (generate_segment (sample_services []) True [] 0
          (loop_state [0x11, 0x22, 0x33] (sample_phdr 120 3) (plain_info 0 3) 130)) =
     Inl LayoutError \<and>
   outf (snd (generate_segment (sample_services []) True [] 0
          (loop_state [0x11, 0x22, 0x33] (sample_phdr 120 3) (plain_info 0 3) 130))) = [] \<and>
   outf (snd (generate_segment (sample_services []) True [] 0
          (loop_state [0x11, 0x22, 0x33] (sample_phdr 120 3) (plain_info 0 3) 116))) =
     replicate 4 0 @ [0x11, 0x22, 0x33]"
proof -
  let ?s = "\<lambda>c. loop_state [0x11, 0x22, 0x33] (sample_phdr 120 3) (plain_info 0 3) c"
  have a: "fst (resolve_idx [] 0 (?s c)) = Inr 0" for c
    by (simp add: resolve_idx_def monad_defs)
  have b: "elf_phdrs (?s c) 0 = Some (sample_phdr 120 3)" for c
    by (simp add: loop_state_def)
  have c: "p_filesz (sample_phdr 120 3) \<noteq> 0"
    by (simp add: sample_phdr_def)
  have p: "fst (segment_payload (sample_services []) [] 0 0 (?s c)) = Inr [0x11, 0x22, 0x33]" for c
    by (simp add: segment_payload_fst [of _ _ "plain_info 0 3"] loop_state_def plain_info_def
        start_def)
  from negative_padding_is_fatal
         [where s = "?s 130" and X = "sample_services []" and silent = True, OF a b c]
       negative_padding_is_fatal
         [where s = "?s 116" and X = "sample_services []" and silent = True, OF a b c]
       p [of 116]
  show ?thesis
    by (simp add: loop_state_def start_def sample_phdr_def)
qed

lemma int_from_bytes_big_bound: "int_from_bytes_big bs < 256 ^ length bs"
proof (induction bs rule: rev_induct)
  case Nil
  show ?case by (simp add: int_from_bytes_big_def)
next
  case (snoc b bs)
  have "unat b < 256" using unsigned_less [of b] by simp
  with snoc.IH have "int_from_bytes_big bs * 256 + unat b < 256 ^ length bs * 256"
    by linarith
  then show ?case by (simp add: int_from_bytes_big_snoc)
qed

lemma int_from_bytes_big_fits:
  assumes "length bs \<le> 16"
  shows "int_from_bytes_big bs < 2 ^ 128"
proof -
  have "(256::nat) ^ length bs \<le> 256 ^ 16"
    using assms by (intro power_increasing) simp_all
  moreover have "(256::nat) ^ 16 = 2 ^ 128" by simp
  ultimately show ?thesis
    using int_from_bytes_big_bound [of bs] by linarith
qed

lemma AES_CTR_decrypt_succeeds:
  assumes "length k \<in> {16, 24, 32}" and "v < 2 ^ 128"
  shows "AES_CTR_decrypt X k v dat = Inr (map2 (XOR) dat (keystream X k v (length dat)))"
  using assms by (simp add: AES_CTR_decrypt_def)

text \<open>
  C3. A segment marked plaintext passes through unchanged (up to decompression). For a
  segment that is not plaintext, the payload is the raw bytes of the segment, read at the
  offset and size of its segment info, decrypted with the key and the initial-counter
  value of the entry that the key lookup returned for it (the entry \<open>i\<close>, whose \<open>idx\<close>
  names the segment), and only then decompressed. With a key of 16, 24 or 32 bytes and
  an initial-counter value of at most 16 bytes the decryption succeeds, and its result
  is the raw bytes exclusive-or the key stream. Decryption is counter mode: byte
  \<open>n\<close> is the raw byte exclusive-or byte \<open>n mod 16\<close> of the encryption of counter block
  \<open>n div 16\<close>; the counter block is 16 bytes whose big-endian value is the big-endian
  value of the initial counter plus the number of the block.
\<close>

theorem decrypt_before_decompress:
  assumes "segment_infos s j = Some si"
    and "\<forall>k b. length (AES_encrypt X k b) = 16"
  shows
    "(plaintext si \<noteq> NO \<longrightarrow>
        fst (segment_payload X segs i j s) =
          (if compressed si = YES
           then zlib_decompress X (take (seg_size si) (drop (offset si) (content s)))
           else Inr (take (seg_size si) (drop (offset si) (content s))))) \<and>
     (\<forall>seg. plaintext si = NO \<and> map_of segs i = Some seg \<longrightarrow>
        fst (resolve_idx segs i s) = Inr (idx seg) \<and>
        fst (segment_payload X segs i j s) =
          (case AES_CTR_decrypt X (key seg) (int_from_bytes_big (iv seg))
                  (take (seg_size si) (drop (offset si) (content s))) of
             Inl e \<Rightarrow> Inl e
           | Inr d \<Rightarrow> if compressed si = YES then zlib_decompress X d else Inr d) \<and>
        (length (key seg) \<in> {16, 24, 32} \<and> length (iv seg) \<le> 16 \<longrightarrow>
           AES_CTR_decrypt X (key seg) (int_from_bytes_big (iv seg))
             (take (seg_size si) (drop (offset si) (content s))) =
           Inr (map2 (XOR) (take (seg_size si) (drop (offset si) (content s)))
                  (keystream X (key seg) (int_from_bytes_big (iv seg))
                     (length (take (seg_size si) (drop (offset si) (content s)))))) \<and>
           fst (segment_payload X segs i j s) =
             (if compressed si = YES
              then zlib_decompress X
                     (map2 (XOR) (take (seg_size si) (drop (offset si) (content s)))
                        (keystream X (key seg) (int_from_bytes_big (iv seg))
                           (length (take (seg_size si) (drop (offset si) (content s))))))
              else Inr (map2 (XOR) (take (seg_size si) (drop (offset si) (content s)))
                          (keystream X (key seg) (int_from_bytes_big (iv seg))
                             (length (take (seg_size si) (drop (offset si) (content s)))))))) \<and>
        (\<forall>d. AES_CTR_decrypt X (key seg) (int_from_bytes_big (iv seg))
                (take (seg_size si) (drop (offset si) (content s))) = Inr d \<longrightarrow>
           length d = length (take (seg_size si) (drop (offset si) (content s))) \<and>
           (\<forall>n < length d.
              d ! n =
                take (seg_size si) (drop (offset si) (content s)) ! n XOR
                AES_encrypt X (key seg)
                  (counter_block (int_from_bytes_big (iv seg)) (n div 16)) ! (n mod 16))) \<and>
        (\<forall>m. length (counter_block (int_from_bytes_big (iv seg)) m) = 16 \<and>
             int_from_bytes_big (counter_block (int_from_bytes_big (iv seg)) m) =
               (int_from_bytes_big (iv seg) + m) mod 2 ^ 128))"
proof (intro conjI allI impI)
  assume "plaintext si \<noteq> NO"
  then show "fst (segment_payload X segs i j s) =
          (if compressed si = YES
           then zlib_decompress X (take (seg_size si) (drop (offset si) (content s)))
           else Inr (take (seg_size si) (drop (offset si) (content s))))"
    by (simp add: segment_payload_fst [OF assms(1)])
next
  fix seg assume a: "plaintext si = NO \<and> map_of segs i = Some seg"
  then have "segs \<noteq> []" by auto
  with a show "fst (resolve_idx segs i s) = Inr (idx seg)"
    by (simp add: resolve_idx_def monad_defs)
  from a show p: "fst (segment_payload X segs i j s) =
          (case AES_CTR_decrypt X (key seg) (int_from_bytes_big (iv seg))
                  (take (seg_size si) (drop (offset si) (content s))) of
             Inl e \<Rightarrow> Inl e
           | Inr d \<Rightarrow> if compressed si = YES then zlib_decompress X d else Inr d)"
    by (simp add: segment_payload_fst [OF assms(1)])
  assume b: "length (key seg) \<in> {16, 24, 32} \<and> length (iv seg) \<le> 16"
  then have "int_from_bytes_big (iv seg) < 2 ^ 128"
    by (intro int_from_bytes_big_fits) simp
  with b show d: "AES_CTR_decrypt X (key seg) (int_from_bytes_big (iv seg))
             (take (seg_size si) (drop (offset si) (content s))) =
           Inr (map2 (XOR) (take (seg_size si) (drop (offset si) (content s)))
                  (keystream X (key seg) (int_from_bytes_big (iv seg))
                     (length (take (seg_size si) (drop (offset si) (content s))))))"
    by (intro AES_CTR_decrypt_succeeds) simp_all
  show "fst (segment_payload X segs i j s) =
             (if compressed si = YES
              then zlib_decompress X
                     (map2 (XOR) (take (seg_size si) (drop (offset si) (content s)))
                        (keystream X (key seg) (int_from_bytes_big (iv seg))
                           (length (take (seg_size si) (drop (offset si) (content s))))))
              else Inr (map2 (XOR) (take (seg_size si) (drop (offset si) (content s)))
                          (keystream X (key seg) (int_from_bytes_big (iv seg))
                             (length (take (seg_size si) (drop (offset si) (content s)))))))"
    unfolding p d by simp
next
  fix seg d
  assume d: "AES_CTR_decrypt X (key seg) (int_from_bytes_big (iv seg))
                (take (seg_size si) (drop (offset si) (content s))) = Inr d"
  show len: "length d = length (take (seg_size si) (drop (offset si) (content s)))"
    by (rule AES_CTR_decrypt_bytes(1) [OF assms(2) d])
  fix n assume "n < length d"
  with len have "n < length (take (seg_size si) (drop (offset si) (content s)))" by simp
  then show "d ! n =
                take (seg_size si) (drop (offset si) (content s)) ! n XOR
                AES_encrypt X (key seg)
                  (counter_block (int_from_bytes_big (iv seg)) (n div 16)) ! (n mod 16)"
    by (rule AES_CTR_decrypt_bytes(2) [OF assms(2) d])
next
  fix seg m
  show "length (counter_block (int_from_bytes_big (iv seg)) m) = 16"
    by (rule counter_block_value(1))
  show "int_from_bytes_big (counter_block (int_from_bytes_big (iv seg)) m) =
               (int_from_bytes_big (iv seg) + m) mod 2 ^ 128"
    by (rule counter_block_value(2))
qed

lemma int_from_bytes_big_zeros:
  "int_from_bytes_big (replicate n 0 @ bs) = int_from_bytes_big bs"
  by (induction n) (simp_all add: int_from_bytes_big_def)

lemma to_bytes_big_small:
  "v < 256 \<Longrightarrow> to_bytes_big (Suc n) v = replicate n 0 @ [of_nat v]"
  by (induction n) (simp_all add: replicate_append_same)

lemma sample_keystream:
  "keystream (sample_services segs) (replicate 16 1)
     (int_from_bytes_big (replicate 15 0 @ [5])) 3 = replicate 16 21"
proof -
  have v: "int_from_bytes_big (replicate 15 0 @ [5]) = 5"
    by (simp add: int_from_bytes_big_zeros) (simp add: int_from_bytes_big_def)
  have "to_bytes_big (Suc 15) 5 = replicate 15 0 @ [of_nat 5]"
    by (rule to_bytes_big_small) simp
  then have c: "counter_block 5 0 = replicate 15 0 @ [5]"
    by (simp add: counter_block_def)
  have u: "[0..<(3 + 15) div 16] = [0]"
    by (simp add: upt_rec)
  show ?thesis
    unfolding v keystream_def u
    by (simp add: c sample_services_def sum_list_replicate)
qed

theorem decrypt_before_decompress_witness:
  "fst (segment_payload (sample_services [(0, sample_seg)]) [(0, sample_seg)] 0 0
          (loop_state [1, 2, 3] (sample_phdr 120 3) (encrypted_info 0 3) 116)) =
     Inr [20, 23, 22] \<and>
   AES_CTR_decrypt (sample_services [(0, sample_seg)]) (replicate 16 1)
     (int_from_bytes_big (replicate 15 0 @ [5])) [1, 2, 3] = Inr [20, 23, 22] \<and>
   fst (segment_payload (sample_services []) [] 0 0
          (loop_state [1, 2, 3] (sample_phdr 120 3) (plain_info 0 3) 116)) = Inr [1, 2, 3]"
proof -
  let ?X = "sample_services [(0, sample_seg)]"
  let ?s = "\<lambda>si. loop_state [1, 2, 3] (sample_phdr 120 3) si 116"
  have a: "segment_infos (?s si) 0 = Some si" for si
    by (simp add: loop_state_def)
  have b: "\<forall>k b. length (AES_encrypt (sample_services segs) k b) = 16" for segs
    by (simp add: sample_services_def)
  have c: "plaintext (encrypted_info 0 3) = NO \<and>
           map_of [(0 :: nat, sample_seg)] 0 = Some sample_seg"
    by (simp add: encrypted_info_def)
  have k: "length (key sample_seg) \<in> {16, 24, 32} \<and> length (iv sample_seg) \<le> 16"
    by (simp add: sample_seg_def)
  have x: "map2 (XOR) [1, 2, 3 :: byte] (replicate 16 21) = [20, 23, 22]"
    by (simp add: numeral_eq_Suc)
  have p: "plaintext (plain_info 0 3) \<noteq> NO"
    by (simp add: plain_info_def)
  have u: "AES_CTR_decrypt ?X (key sample_seg) (int_from_bytes_big (iv sample_seg))
             (take (seg_size (encrypted_info 0 3))
                (drop (offset (encrypted_info 0 3)) (content (?s (encrypted_info 0 3))))) =
           Inr (map2 (XOR)
                  (take (seg_size (encrypted_info 0 3))
                     (drop (offset (encrypted_info 0 3)) (content (?s (encrypted_info 0 3)))))
                  (keystream ?X (key sample_seg) (int_from_bytes_big (iv sample_seg))
                     (length (take (seg_size (encrypted_info 0 3))
                        (drop (offset (encrypted_info 0 3))
                           (content (?s (encrypted_info 0 3)))))))) \<and>
           fst (segment_payload ?X [(0, sample_seg)] 0 0 (?s (encrypted_info 0 3))) =
             (if compressed (encrypted_info 0 3) = YES
              then zlib_decompress ?X
                     (map2 (XOR)
                        (take (seg_size (encrypted_info 0 3))
                           (drop (offset (encrypted_info 0 3))
                              (content (?s (encrypted_info 0 3)))))
                        (keystream ?X (key sample_seg) (int_from_bytes_big (iv sample_seg))
                           (length (take (seg_size (encrypted_info 0 3))
                              (drop (offset (encrypted_info 0 3))
                                 (content (?s (encrypted_info 0 3))))))))
              else Inr (map2 (XOR)
                          (take (seg_size (encrypted_info 0 3))
                             (drop (offset (encrypted_info 0 3))
                                (content (?s (encrypted_info 0 3)))))
                          (keystream ?X (key sample_seg) (int_from_bytes_big (iv sample_seg))
                             (length (take (seg_size (encrypted_info 0 3))
                                (drop (offset (encrypted_info 0 3))
                                   (content (?s (encrypted_info 0 3)))))))))"
    using decrypt_before_decompress [OF a b, THEN conjunct2, THEN spec, THEN mp, OF c]
      k by blast
  have q: "fst (segment_payload (sample_services []) [] 0 0 (?s (plain_info 0 3))) =
           (if compressed (plain_info 0 3) = YES
            then zlib_decompress (sample_services [])
                   (take (seg_size (plain_info 0 3))
                      (drop (offset (plain_info 0 3)) (content (?s (plain_info 0 3)))))
            else Inr (take (seg_size (plain_info 0 3))
                        (drop (offset (plain_info 0 3)) (content (?s (plain_info 0 3))))))"
    using decrypt_before_decompress [OF a b, THEN conjunct1, THEN mp, OF p]
    by blast
  have r: "take (seg_size (encrypted_info 0 3))
             (drop (offset (encrypted_info 0 3)) (content (?s (encrypted_info 0 3)))) =
           [1, 2, 3]"
    by (simp add: encrypted_info_def loop_state_def start_def)
  have e: "compressed (encrypted_info 0 3) \<noteq> YES" "key sample_seg = replicate 16 1"
    "iv sample_seg = replicate 15 0 @ [5]"
    by (simp_all add: encrypted_info_def sample_seg_def)
  have l: "length [1, 2, 3 :: byte] = 3" by simp
  from u have "fst (segment_payload ?X [(0, sample_seg)] 0 0 (?s (encrypted_info 0 3))) =
      Inr [20, 23, 22] \<and>
    AES_CTR_decrypt ?X (replicate 16 1) (int_from_bytes_big (replicate 15 0 @ [5])) [1, 2, 3] =
      Inr [20, 23, 22]"
    unfolding r e(2,3) l sample_keystream x using e(1) by simp
  moreover from q have
    "fst (segment_payload (sample_services []) [] 0 0 (?s (plain_info 0 3))) = Inr [1, 2, 3]"
    by (simp add: plain_info_def loop_state_def start_def)
  ultimately show ?thesis by simp
qed

section \<open>What each part of the run leaves unchanged\<close>

lemma for_each_append:
  "for_each body (xs @ ys) s = bind (for_each body xs) (\<lambda>_. for_each body ys) s"
  by (induction xs arbitrary: s) (simp_all add: monad_defs split: prod.splits sum.splits)

lemma for_each_invariant:
  assumes "\<And>i s. I s \<Longrightarrow> I (snd (body i s))" and "I s"
  shows "I (snd (for_each body xs s))"
  using assms(2)
proof (induction xs arbitrary: s)
  case Nil
  then show ?case by (simp add: ok_def)
next
  case (Cons i xs)
  from Cons.prems have "I (snd (body i s))" by (rule assms(1))
  with Cons.IH show ?case
    by (cases "body i s") (auto simp: bind_def split: sum.splits)
qed

lemma read_headers_frame:
  "outf (snd (read_headers L silent ign s)) = outf s"
  "at (snd (read_headers L silent ign s)) = at s"
  "content (snd (read_headers L silent ign s)) = content s"
  "key_requests (snd (read_headers L silent ign s)) = key_requests s"
  "visits (snd (read_headers L silent ign s)) = visits s"
  by (simp_all add: read_headers_def monad_defs Let_def split: sum.splits)

lemma read_control_info_frame:
  "outf (snd (read_control_info L silent sh s)) = outf s"
  "at (snd (read_control_info L silent sh s)) = at s"
  "content (snd (read_control_info L silent sh s)) = content s"
  "key_requests (snd (read_control_info L silent sh s)) = key_requests s"
  "visits (snd (read_control_info L silent sh s)) = visits s"
  by (simp_all add: read_control_info_def read_digest_slot_def read_drm_slot_def monad_defs
      Let_def split: sum.splits)

lemma copy_elf_header_frame:
  "content (snd (copy_elf_header L silent sh s)) = content s"
  "key_requests (snd (copy_elf_header L silent sh s)) = key_requests s"
  "visits (snd (copy_elf_header L silent sh s)) = visits s"
  by (simp_all add: copy_elf_header_def init_locals_def monad_defs Let_def split: sum.splits)

lemma copy_elf_header_cases:
  "(\<exists>e. fst (copy_elf_header L silent sh s) = Inl e \<and>
        outf (snd (copy_elf_header L silent sh s)) = outf s \<and>
        at (snd (copy_elf_header L silent sh s)) = at s) \<or>
   (\<exists>h. fst (copy_elf_header L silent sh s) = Inr h \<and>
        outf (snd (copy_elf_header L silent sh s)) = outf s @ ElfHeader_pack L h \<and>
        at (snd (copy_elf_header L silent sh s)) = int (ElfHeader_Size L))"
  by (simp add: copy_elf_header_def init_locals_def monad_defs Let_def split: sum.splits)

lemma self2elf_unfold:
  "self2elf L X k silent ign s =
     (case read_headers L silent ign s of
        (Inl e, s1) \<Rightarrow> (Inl e, s1)
      | (Inr (sce, sh, app), s1) \<Rightarrow>
          (case read_control_info L silent sh s1 of
             (Inl e, s2) \<Rightarrow> (Inl e, s2)
           | (Inr ctl, s2) \<Rightarrow>
               (case copy_elf_header L silent sh s2 of
                  (Inl e, s3) \<Rightarrow> (Inl e, s3)
                | (Inr h, s3) \<Rightarrow>
                    convert_segments L X k silent sce sh app (ci_npdrmtype ctl) h s3)))"
  by (simp add: self2elf_def bind_def split: prod.splits sum.splits)

lemma for_each_adds:
  assumes "\<And>i s. \<exists>w. outf (snd (body i s)) = outf s @ w \<and>
                       at (snd (body i s)) = at s + int (length w)"
  shows "\<exists>w. outf (snd (for_each body xs s)) = outf s @ w \<and>
              at (snd (for_each body xs s)) = at s + int (length w)"
proof (induction xs arbitrary: s)
  case Nil
  show ?case by (simp add: ok_def)
next
  case (Cons i xs)
  obtain r s1 where b: "body i s = (r, s1)" by (cases "body i s")
  from assms [of i s] b obtain w1 where
    w1: "outf s1 = outf s @ w1" "at s1 = at s + int (length w1)" by auto
  show ?case
  proof (cases r)
    case (Inl e)
    with b w1 show ?thesis by (auto simp: bind_def)
  next
    case (Inr u)
    from Cons.IH [of s1] obtain w2 where
      "outf (snd (for_each body xs s1)) = outf s1 @ w2"
      "at (snd (for_each body xs s1)) = at s1 + int (length w2)" by auto
    with b w1 Inr show ?thesis
      by (intro exI [of _ "w1 @ w2"]) (simp add: bind_def)
  qed
qed

lemma get_segment_adds:
  assumes "\<forall>d p. ElfPhdr_init L d = Inr p \<longrightarrow> length d = ElfPhdr_Size L"
  shows "\<exists>w. outf (snd (get_segment L silent sh i s)) = outf s @ w \<and>
              at (snd (get_segment L silent sh i s)) = at s + int (length w) \<and>
              (fst (get_segment L silent sh i s) = Inr () \<longrightarrow> length w = ElfPhdr_Size L)"
  using assms
  by (auto simp: get_segment_def monad_defs Let_def split: sum.splits)

lemma get_keys_frame:
  "outf (snd (get_keys X sce app n k silent s)) = outf s"
  "at (snd (get_keys X sce app n k silent s)) = at s"
  "content (snd (get_keys X sce app n k silent s)) = content s"
  "visits (snd (get_keys X sce app n k silent s)) = visits s"
  "elf_phdrs (snd (get_keys X sce app n k silent s)) = elf_phdrs s"
  "segment_infos (snd (get_keys X sce app n k silent s)) = segment_infos s"
  by (simp_all add: get_keys_def split: prod.splits)

lemma segment_payload_result:
  assumes "segment_payload X segs i j s = (r, s')"
  shows "outf s' = outf s \<and> at s' = at s \<and> visits s' = visits s \<and>
         key_requests s' = key_requests s \<and> content s' = content s \<and>
         elf_phdrs s' = elf_phdrs s \<and> segment_infos s' = segment_infos s"
  using segment_payload_frame [of X segs i j s] assms by simp

lemma generate_segment_unfold:
  "generate_segment X silent segs i s =
     (case fst (resolve_idx segs i s) of
        Inl e \<Rightarrow> (Inl e, s)
      | Inr j \<Rightarrow>
          (case elf_phdrs s j of
             None \<Rightarrow> (Inl KeyError, s\<lparr>visits := visits s @ [(i, j)]\<rparr>)
           | Some phdr \<Rightarrow>
               if p_filesz phdr = 0 then (Inr (), s\<lparr>visits := visits s @ [(i, j)]\<rparr>)
               else if int (p_offset phdr) - at s < 0
               then (Inl LayoutError,
                     s\<lparr>visits := visits s @ [(i, j)],
                       stdout := (if silent then stdout s else stdout s @ [Print_Dumping j]) @
                                 [Print_pad_len (int (p_offset phdr) - at s)]\<rparr>)
               else
                 (case segment_payload X segs i j
                         (s\<lparr>visits := visits s @ [(i, j)],
                            stdout := (if silent then stdout s
                                       else stdout s @ [Print_Dumping j]),
                            outf := outf s @ replicate (nat (int (p_offset phdr) - at s)) 0,
                            at := int (p_offset phdr)\<rparr>) of
                    (Inl e, s') \<Rightarrow> (Inl e, s')
                  | (Inr dat, s') \<Rightarrow>
                      (Inr (), s'\<lparr>outf := outf s' @ dat,
                                  at := at s' + int (length dat)\<rparr>))))"
proof -
  have r: "resolve_idx segs i s = (fst (resolve_idx segs i s), s)"
    using resolve_idx_state [of segs i s] by (metis prod.collapse)
  have g: "generate_segment X silent segs i s =
      (case fst (resolve_idx segs i s) of
         Inl e \<Rightarrow> (Inl e, s)
       | Inr j \<Rightarrow>
           bind (modify (\<lambda>s. s\<lparr>visits := visits s @ [(i, j)]\<rparr>)) (\<lambda>_.
           bind (get elf_phdrs) (\<lambda>phdrs.
           bind (lookup phdrs j) (\<lambda>phdr.
           if p_filesz phdr = 0 then ok ()
           else
             bind (print silent (Print_Dumping j)) (\<lambda>_.
             bind (write_padding phdr) (\<lambda>_.
             bind (segment_payload X segs i j) (\<lambda>dat.
             bind (outf_write dat) (\<lambda>_.
             modify (\<lambda>s. s\<lparr>at := at s + int (length dat)\<rparr>)))))))) s)"
    by (subst generate_segment_def, subst bind_def, subst r) (simp split: sum.splits)
  show ?thesis
  proof (cases "fst (resolve_idx segs i s)")
    case (Inl e)
    with g show ?thesis by simp
  next
    case (Inr j)
    show ?thesis
    proof (cases "elf_phdrs s j")
      case None
      with g Inr show ?thesis by (simp add: monad_defs)
    next
      case (Some phdr)
      show ?thesis
      proof (cases "p_filesz phdr = 0 \<or> int (p_offset phdr) - at s < 0")
        case True
        with g Inr Some show ?thesis
          by (auto simp: monad_defs write_padding_def Let_def)
      next
        case False
        with g Inr Some show ?thesis
          by (cases silent)
             (simp_all add: monad_defs write_padding_def Let_def
               split: prod.splits sum.splits)
      qed
    qed
  qed
qed


lemma generate_segment_adds:
  "\<exists>w. outf (snd (generate_segment X silent segs i s)) = outf s @ w \<and>
        at (snd (generate_segment X silent segs i s)) = at s + int (length w)"
  by (auto simp: generate_segment_unfold split: sum.splits option.splits prod.splits
      dest!: segment_payload_result)

lemma generate_segment_frame:
  "content (snd (generate_segment X silent segs i s)) = content s"
  "key_requests (snd (generate_segment X silent segs i s)) = key_requests s"
  "elf_phdrs (snd (generate_segment X silent segs i s)) = elf_phdrs s"
  "segment_infos (snd (generate_segment X silent segs i s)) = segment_infos s"
  by (auto simp: generate_segment_unfold split: sum.splits option.splits prod.splits
      dest!: segment_payload_result)

section \<open>The write cursor (lines 72 to 142)\<close>

lemma convert_segments_adds:
  assumes ph: "\<forall>d p. ElfPhdr_init L d = Inr p \<longrightarrow> length d = ElfPhdr_Size L"
  shows "\<exists>w. outf (snd (convert_segments L X k silent sce sh app n h s)) = outf s @ w \<and>
              at (snd (convert_segments L X k silent sce sh app n h s)) = at s + int (length w)"
proof -
  let ?A = "for_each (get_segment L silent sh) [0..<e_phnum h]"
  obtain r1 s1 where a: "?A s = (r1, s1)" by (cases "?A s")
  have "\<exists>w. outf (snd (?A s)) = outf s @ w \<and> at (snd (?A s)) = at s + int (length w)"
    by (rule for_each_adds) (use get_segment_adds [OF ph] in blast)
  with a obtain w1 where w1: "outf s1 = outf s @ w1" "at s1 = at s + int (length w1)"
    by auto
  show ?thesis
  proof (cases r1)
    case (Inl e)
    with a w1 show ?thesis by (auto simp: convert_segments_def bind_def)
  next
    case r1: (Inr u)
    obtain r2 s2 where b: "get_keys X sce app n k silent s1 = (r2, s2)"
      by (cases "get_keys X sce app n k silent s1")
    have w2: "outf s2 = outf s1" "at s2 = at s1"
      using get_keys_frame(1,2) [of X sce app n k silent s1] b by simp_all
    show ?thesis
    proof (cases r2)
      case (Inl e)
      with a b r1 w1 w2 show ?thesis by (auto simp: convert_segments_def bind_def)
    next
      case (Inr segs)
      let ?B = "for_each (generate_segment X silent segs) [0..<e_phnum h]"
      have "\<exists>w. outf (snd (?B s2)) = outf s2 @ w \<and> at (snd (?B s2)) = at s2 + int (length w)"
        by (rule for_each_adds) (rule generate_segment_adds)
      then obtain w3 where "outf (snd (?B s2)) = outf s2 @ w3"
        "at (snd (?B s2)) = at s2 + int (length w3)" by auto
      with a b r1 Inr w1 w2 show ?thesis
        by (intro exI [of _ "w1 @ w3"]) (simp add: convert_segments_def bind_def)
    qed
  qed
qed

lemma copy_elf_header_adds:
  assumes "\<forall>d h. ElfHeader_init L d = Inr h \<longrightarrow>
             length (ElfHeader_pack L (adjust_elf_header h)) = ElfHeader_Size L"
  shows "(\<exists>e. fst (copy_elf_header L silent sh s) = Inl e \<and>
              outf (snd (copy_elf_header L silent sh s)) = outf s \<and>
              at (snd (copy_elf_header L silent sh s)) = at s) \<or>
         (\<exists>h w. fst (copy_elf_header L silent sh s) = Inr h \<and>
              outf (snd (copy_elf_header L silent sh s)) = outf s @ w \<and>
              length w = ElfHeader_Size L \<and>
              at (snd (copy_elf_header L silent sh s)) = int (ElfHeader_Size L))"
  using assms
  by (auto simp: copy_elf_header_def init_locals_def monad_defs Let_def split: sum.splits)

lemma generate_segment_emits:
  assumes "fst (resolve_idx segs i t) = Inr j" and "elf_phdrs t j = Some phdr"
    and "p_filesz phdr \<noteq> 0" and "at t \<le> int (p_offset phdr)"
    and "fst (segment_payload X segs i j t) = Inr dat"
  shows "fst (generate_segment X silent segs i t) = Inr ()"
    and "outf (snd (generate_segment X silent segs i t)) =
           outf t @ replicate (nat (int (p_offset phdr) - at t)) 0 @ dat"
    and "at (snd (generate_segment X silent segs i t)) =
           int (p_offset phdr) + int (length dat)"
proof -
  let ?t1 = "t\<lparr>visits := visits t @ [(i, j)],
                stdout := (if silent then stdout t else stdout t @ [Print_Dumping j]),
                outf := outf t @ replicate (nat (int (p_offset phdr) - at t)) 0,
                at := int (p_offset phdr)\<rparr>"
  obtain r t' where sp: "segment_payload X segs i j ?t1 = (r, t')"
    by (cases "segment_payload X segs i j ?t1")
  have "fst (segment_payload X segs i j ?t1) = fst (segment_payload X segs i j t)"
    by (rule segment_payload_cong) simp_all
  with sp assms(5) have r: "r = Inr dat" by simp
  from segment_payload_result [OF sp] have fr: "outf t' = outf ?t1" "at t' = at ?t1"
    by simp_all
  have "generate_segment X silent segs i t =
          (Inr (), t'\<lparr>outf := outf t' @ dat, at := at t' + int (length dat)\<rparr>)"
    using assms(1-4) sp r by (simp add: generate_segment_unfold)
  with fr show "fst (generate_segment X silent segs i t) = Inr ()"
    and "outf (snd (generate_segment X silent segs i t)) =
           outf t @ replicate (nat (int (p_offset phdr) - at t)) 0 @ dat"
    and "at (snd (generate_segment X silent segs i t)) =
           int (p_offset phdr) + int (length dat)"
    by simp_all
qed

text \<open>
  C9. The cursor \<open>at\<close> counts the bytes written. Provided the packed executable header
  has the size \<open>ElfHeader.Size\<close> and the program-header constructor accepts only data of
  the size \<open>ElfPhdr.Size\<close>: a run of \<open>self2elf\<close> only appends to the output, and when it
  ends (normally or with an exception) either nothing was written and the cursor was
  never bound, or the cursor is the number of bytes appended. Step by step: writing the
  header appends \<open>ElfHeader.Size\<close> bytes and sets the cursor to that size; an iteration
  of the first loop appends what it adds to the cursor, \<open>ElfPhdr.Size\<close> bytes when it
  completes; an iteration of the reconstruction loop appends what it adds to the cursor,
  and when it emits a segment that is the padding up to the file offset of the segment
  followed by the payload, which leaves the cursor at the file offset plus the length of
  the payload.
\<close>

theorem cursor_counts_written_bytes:
  assumes hdr: "\<forall>d h. ElfHeader_init L d = Inr h \<longrightarrow>
                  length (ElfHeader_pack L (adjust_elf_header h)) = ElfHeader_Size L"
    and ph: "\<forall>d p. ElfPhdr_init L d = Inr p \<longrightarrow> length d = ElfPhdr_Size L"
  shows
    "(\<exists>w. outf (snd (self2elf L X k silent ign s)) = outf s @ w \<and>
          (w = [] \<and> at (snd (self2elf L X k silent ign s)) = at s \<or>
           at (snd (self2elf L X k silent ign s)) = int (length w))) \<and>
     (\<forall>sh t. (\<exists>e. fst (copy_elf_header L silent sh t) = Inl e \<and>
                  outf (snd (copy_elf_header L silent sh t)) = outf t \<and>
                  at (snd (copy_elf_header L silent sh t)) = at t) \<or>
             (\<exists>h w. fst (copy_elf_header L silent sh t) = Inr h \<and>
                  outf (snd (copy_elf_header L silent sh t)) = outf t @ w \<and>
                  length w = ElfHeader_Size L \<and>
                  at (snd (copy_elf_header L silent sh t)) = int (ElfHeader_Size L))) \<and>
     (\<forall>sh i t. \<exists>w. outf (snd (get_segment L silent sh i t)) = outf t @ w \<and>
                  at (snd (get_segment L silent sh i t)) = at t + int (length w) \<and>
                  (fst (get_segment L silent sh i t) = Inr () \<longrightarrow>
                     length w = ElfPhdr_Size L)) \<and>
     (\<forall>segs i t. \<exists>w. outf (snd (generate_segment X silent segs i t)) = outf t @ w \<and>
                  at (snd (generate_segment X silent segs i t)) = at t + int (length w)) \<and>
     (\<forall>segs i t j phdr dat.
        fst (resolve_idx segs i t) = Inr j \<and> elf_phdrs t j = Some phdr \<and>
        p_filesz phdr \<noteq> 0 \<and> at t \<le> int (p_offset phdr) \<and>
        fst (segment_payload X segs i j t) = Inr dat \<longrightarrow>
          fst (generate_segment X silent segs i t) = Inr () \<and>
          outf (snd (generate_segment X silent segs i t)) =
            outf t @ replicate (nat (int (p_offset phdr) - at t)) 0 @ dat \<and>
          at (snd (generate_segment X silent segs i t)) =
            int (p_offset phdr) + int (length dat))"
proof (intro conjI allI impI)
  show "\<exists>w. outf (snd (self2elf L X k silent ign s)) = outf s @ w \<and>
          (w = [] \<and> at (snd (self2elf L X k silent ign s)) = at s \<or>
           at (snd (self2elf L X k silent ign s)) = int (length w))"
  proof -
    obtain r1 s1 where a: "read_headers L silent ign s = (r1, s1)"
      by (cases "read_headers L silent ign s")
    have f1: "outf s1 = outf s" "at s1 = at s"
      using read_headers_frame(1,2) [of L silent ign s] a by simp_all
    show ?thesis
    proof (cases r1)
      case (Inl e)
      with a f1 show ?thesis by (simp add: self2elf_unfold)
    next
      case r1: (Inr t)
      obtain sce sh app where t: "t = (sce, sh, app)" by (cases t)
      obtain r2 s2 where b: "read_control_info L silent sh s1 = (r2, s2)"
        by (cases "read_control_info L silent sh s1")
      have f2: "outf s2 = outf s" "at s2 = at s"
        using read_control_info_frame(1,2) [of L silent sh s1] b f1 by simp_all
      show ?thesis
      proof (cases r2)
        case (Inl e)
        with a r1 t b f2 show ?thesis by (simp add: self2elf_unfold)
      next
        case r2: (Inr ctl)
        obtain r3 s3 where c: "copy_elf_header L silent sh s2 = (r3, s3)"
          by (cases "copy_elf_header L silent sh s2")
        show ?thesis
        proof (cases r3)
          case (Inl e)
          with copy_elf_header_adds [OF hdr, of silent sh s2] c f2
          have "outf s3 = outf s" "at s3 = at s" by simp_all
          with a r1 t b r2 c Inl show ?thesis by (simp add: self2elf_unfold)
        next
          case r3: (Inr h)
          with copy_elf_header_adds [OF hdr, of silent sh s2] c f2
          obtain w0 where w0: "outf s3 = outf s @ w0" "at s3 = int (length w0)"
            by auto
          let ?C = "convert_segments L X k silent sce sh app (ci_npdrmtype ctl) h s3"
          from convert_segments_adds [OF ph, of X k silent sce sh app "ci_npdrmtype ctl" h s3]
          obtain w1 where "outf (snd ?C) = outf s3 @ w1"
            "at (snd ?C) = at s3 + int (length w1)" by auto
          with w0 have "outf (snd ?C) = outf s @ (w0 @ w1)"
            "at (snd ?C) = int (length (w0 @ w1))" by simp_all
          moreover have "self2elf L X k silent ign s = ?C"
            using a r1 t b r2 c r3 by (simp add: self2elf_unfold)
          ultimately show ?thesis by metis
        qed
      qed
    qed
  qed
next
  fix sh t
  show "(\<exists>e. fst (copy_elf_header L silent sh t) = Inl e \<and>
                  outf (snd (copy_elf_header L silent sh t)) = outf t \<and>
                  at (snd (copy_elf_header L silent sh t)) = at t) \<or>
             (\<exists>h w. fst (copy_elf_header L silent sh t) = Inr h \<and>
                  outf (snd (copy_elf_header L silent sh t)) = outf t @ w \<and>
                  length w = ElfHeader_Size L \<and>
                  at (snd (copy_elf_header L silent sh t)) = int (ElfHeader_Size L))"
    by (rule copy_elf_header_adds [OF hdr])
next
  fix sh i t
  show "\<exists>w. outf (snd (get_segment L silent sh i t)) = outf t @ w \<and>
                  at (snd (get_segment L silent sh i t)) = at t + int (length w) \<and>
                  (fst (get_segment L silent sh i t) = Inr () \<longrightarrow>
                     length w = ElfPhdr_Size L)"
    by (rule get_segment_adds [OF ph])
next
  fix segs i t
  show "\<exists>w. outf (snd (generate_segment X silent segs i t)) = outf t @ w \<and>
                  at (snd (generate_segment X silent segs i t)) = at t + int (length w)"
    by (rule generate_segment_adds)
next
  fix segs i t j phdr dat
  assume "fst (resolve_idx segs i t) = Inr j \<and> elf_phdrs t j = Some phdr \<and>
        p_filesz phdr \<noteq> 0 \<and> at t \<le> int (p_offset phdr) \<and>
        fst (segment_payload X segs i j t) = Inr dat"
  then have a: "fst (resolve_idx segs i t) = Inr j" "elf_phdrs t j = Some phdr"
    "p_filesz phdr \<noteq> 0" "at t \<le> int (p_offset phdr)"
    "fst (segment_payload X segs i j t) = Inr dat"
    by simp_all
  show "fst (generate_segment X silent segs i t) = Inr ()"
    by (rule generate_segment_emits(1) [OF a])
  show "outf (snd (generate_segment X silent segs i t)) =
            outf t @ replicate (nat (int (p_offset phdr) - at t)) 0 @ dat"
    by (rule generate_segment_emits(2) [OF a])
  show "at (snd (generate_segment X silent segs i t)) =
            int (p_offset phdr) + int (length dat)"
    by (rule generate_segment_emits(3) [OF a])
qed

lemma sample_layout_sizes:
  "\<forall>d h. ElfHeader_init sample_layout d = Inr h \<longrightarrow>
     length (ElfHeader_pack sample_layout (adjust_elf_header h)) = ElfHeader_Size sample_layout"
  "\<forall>d p. ElfPhdr_init sample_layout d = Inr p \<longrightarrow> length d = ElfPhdr_Size sample_layout"
  by (auto simp: sample_layout_def sized_def sample_ElfHeader_def sample_ElfHeader_pack_def
      adjust_elf_header_def le16_def le32_def split: if_splits)

lemmas run_defs =
  self2elf_def read_headers_def read_control_info_def read_digest_slot_def
  read_drm_slot_def copy_elf_header_def init_locals_def adjust_elf_header_def
  convert_segments_def get_segment_def get_keys_def generate_segment_def resolve_idx_def
  write_padding_def segment_payload_def decrypt_segment_def decompress_segment_def

lemma plain_run_length:
  "length (outf (snd (self2elf sample_layout (sample_services []) [] True False
                        (start plain_container 0)))) = 130"
  by (simp add: run_defs plain_container_def monad_defs sample_defs Let_def)

theorem cursor_counts_written_bytes_witness:
  "at (snd (self2elf sample_layout (sample_services []) [] True False
              (start plain_container 0))) = 130"
  using cursor_counts_written_bytes
          [OF sample_layout_sizes, of "sample_services []" "[]" True False
             "start plain_container 0", THEN conjunct1]
    plain_run_length
  by (auto simp: start_def)

section \<open>The silence flag (line 16)\<close>

lemma sim_bind:
  assumes "sim m m'" and "\<And>x. sim (f x) (f' x)"
  shows "sim (bind m f) (bind m' f')"
  unfolding sim_def
proof (intro allI impI)
  fix s s' assume q: "quiet_eq s s'"
  obtain r t where a: "m s = (r, t)" by (cases "m s")
  obtain r' t' where b: "m' s' = (r', t')" by (cases "m' s'")
  from assms(1) q have "fst (m s) = fst (m' s') \<and> quiet_eq (snd (m s)) (snd (m' s'))"
    unfolding sim_def by blast
  with a b have c: "m' s' = (r, t')" "quiet_eq t t'"
    by simp_all
  show "fst (bind m f s) = fst (bind m' f' s') \<and>
        quiet_eq (snd (bind m f s)) (snd (bind m' f' s'))"
  proof (cases r)
    case (Inl e)
    with a c show ?thesis by (simp add: bind_def)
  next
    case (Inr x)
    with assms(2) [of x] c a show ?thesis by (simp add: bind_def sim_def)
  qed
qed

lemma sim_if:
  assumes "c \<Longrightarrow> sim m m'" and "\<not> c \<Longrightarrow> sim n n'"
  shows "sim (if c then m else n) (if c then m' else n')"
  using assms by simp

lemma sim_case_prod:
  assumes "\<And>a b. sim (f a b) (f' a b)"
  shows "sim (case x of (a, b) \<Rightarrow> f a b) (case x of (a, b) \<Rightarrow> f' a b)"
  using assms by (cases x) simp

lemma sim_basic:
  "sim (ok x) (ok x)"
  "sim (raise e) (raise e)"
  "sim (seek n) (seek n)"
  "sim (read n) (read n)"
  "sim (construct init dat) (construct init dat)"
  "sim (lift r) (lift r)"
  "sim (outf_write dat) (outf_write dat)"
  "sim (print a d) (print b d)"
  "sim (lookup m key') (lookup m key')"
  "sim (get at) (get at)"
  "sim (get elf_phdrs) (get elf_phdrs)"
  "sim (get segment_infos) (get segment_infos)"
  by (simp_all add: sim_def quiet_eq_def monad_defs Let_def split: option.splits)

lemma sim_modify:
  assumes "\<And>s s'. quiet_eq s s' \<Longrightarrow> quiet_eq (f s) (f s')"
  shows "sim (modify f) (modify f)"
  using assms by (simp add: sim_def modify_def)

lemmas sim_rules = sim_bind sim_if sim_case_prod sim_basic

lemma sim_for_each:
  assumes "\<And>i. sim (f i) (g i)"
  shows "sim (for_each f xs) (for_each g xs)"
  by (induction xs) (auto intro: sim_bind sim_basic assms)

lemma sim_read_headers: "sim (read_headers L a ign) (read_headers L b ign)"
  unfolding read_headers_def Let_def by (intro sim_rules)

lemma sim_read_control_info: "sim (read_control_info L a sh) (read_control_info L b sh)"
  unfolding read_control_info_def read_digest_slot_def read_drm_slot_def Let_def
  by (intro sim_rules)

lemma sim_copy_elf_header: "sim (copy_elf_header L a sh) (copy_elf_header L b sh)"
  unfolding copy_elf_header_def init_locals_def Let_def
  by (intro sim_rules sim_modify) (simp add: quiet_eq_def)

lemma sim_get_segment: "sim (get_segment L a sh i) (get_segment L b sh i)"
  unfolding get_segment_def
  by (intro sim_rules sim_modify) (simp_all add: quiet_eq_def)

lemma sim_get_keys:
  assumes "\<forall>d p sce v t n k.
             get_segments X d p sce v t n k True = get_segments X d p sce v t n k False"
  shows "sim (get_keys X sce app n k a) (get_keys X sce app n k b)"
proof -
  have "get_segments X d p sce v t n k a = get_segments X d p sce v t n k b" for d p v t
    using assms by (cases a; cases b) simp_all
  then show ?thesis
    by (auto simp: sim_def quiet_eq_def get_keys_def split: prod.splits)
qed

lemma sim_generate_segment:
  "sim (generate_segment X a segs i) (generate_segment X b segs i)"
  unfolding generate_segment_def resolve_idx_def write_padding_def segment_payload_def
    decrypt_segment_def decompress_segment_def Let_def
  by (intro sim_rules sim_modify) (simp_all add: quiet_eq_def)

lemma sim_self2elf:
  assumes "\<forall>d p sce v t n k.
             get_segments X d p sce v t n k True = get_segments X d p sce v t n k False"
  shows "sim (self2elf L X k a ign) (self2elf L X k b ign)"
  unfolding self2elf_def convert_segments_def
  by (intro sim_rules sim_for_each sim_read_headers sim_read_control_info
      sim_copy_elf_header sim_get_segment sim_generate_segment sim_get_keys [OF assms])

text \<open>
  C10. Provided the result of the key lookup does not depend on its quiet argument, a
  conversion with the silence flag set and one with it cleared, of the same input, end
  the same way (both complete, or both raise the same exception) and have written the
  same bytes; they also leave the same cursor and have visited the same segments.
\<close>

theorem silent_does_not_change_output:
  assumes "\<forall>d p sce v t n k.
             get_segments X d p sce v t n k True = get_segments X d p sce v t n k False"
  shows "fst (self2elf L X k True ign s) = fst (self2elf L X k False ign s) \<and>
         outf (snd (self2elf L X k True ign s)) = outf (snd (self2elf L X k False ign s)) \<and>
         at (snd (self2elf L X k True ign s)) = at (snd (self2elf L X k False ign s)) \<and>
         visits (snd (self2elf L X k True ign s)) = visits (snd (self2elf L X k False ign s))"
proof -
  have "quiet_eq s s" by (simp add: quiet_eq_def)
  with sim_self2elf [OF assms, of L k True ign False]
  have "fst (self2elf L X k True ign s) = fst (self2elf L X k False ign s) \<and>
        quiet_eq (snd (self2elf L X k True ign s)) (snd (self2elf L X k False ign s))"
    by (simp add: sim_def)
  then show ?thesis by (simp add: quiet_eq_def)
qed

lemma plain_run_silent:
  "fst (self2elf sample_layout (sample_services []) [] True False
          (start plain_container 0)) = Inr ()"
  "outf (snd (self2elf sample_layout (sample_services []) [] True False
                (start plain_container 0))) =
   sample_ElfHeader_pack (sample_elf_hdr 0x28 0 0) @
   sample_ElfPhdr_pack (sample_phdr 120 3) @ sample_ElfPhdr_pack (sample_phdr 128 2) @
   replicate 4 0 @ [0x11, 0x22, 0x33] @ replicate 5 0 @ [0x44, 0x55]"
  by (simp_all add: run_defs plain_container_def monad_defs sample_defs Let_def)

theorem silent_does_not_change_output_witness:
  "fst (self2elf sample_layout (sample_services []) [] False False
          (start plain_container 0)) = Inr () \<and>
   outf (snd (self2elf sample_layout (sample_services []) [] False False
                (start plain_container 0))) =
   sample_ElfHeader_pack (sample_elf_hdr 0x28 0 0) @
   sample_ElfPhdr_pack (sample_phdr 120 3) @ sample_ElfPhdr_pack (sample_phdr 128 2) @
   replicate 4 0 @ [0x11, 0x22, 0x33] @ replicate 5 0 @ [0x44, 0x55]"
proof -
  have "\<forall>d p sce v t n k.
          get_segments (sample_services []) d p sce v t n k True =
          get_segments (sample_services []) d p sce v t n k False"
    by (simp add: sample_services_def)
  from silent_does_not_change_output [OF this, of sample_layout "[]" False
         "start plain_container 0"]
  show ?thesis by (simp add: plain_run_silent)
qed

section \<open>The control-info chain (lines 17 and 36 to 61)\<close>

lemma read_control_info_fst:
  assumes "SceControlInfo_init L
             (take (SceControlInfo_Size L) (drop (controlinfo_offset sh) (content s))) = Inr h1"
    and "ctl_type h1 = DIGEST_SHA256 \<longrightarrow>
           SceControlInfoDigest256_init L
             (take (SceControlInfoDigest256_Size L)
                (drop (controlinfo_offset sh + SceControlInfo_Size L) (content s))) = Inr dg"
    and "off = SceControlInfo_Size L +
                 (if ctl_type h1 = DIGEST_SHA256 then SceControlInfoDigest256_Size L else 0)"
    and "SceControlInfo_init L
           (take (SceControlInfo_Size L) (drop (controlinfo_offset sh + off) (content s))) =
         Inr h2"
    and "ctl_type h2 = NPDRM_VITA \<longrightarrow>
           SceControlInfoDRM_init L
             (take (SceControlInfoDRM_Size L)
                (drop (controlinfo_offset sh + (off + SceControlInfo_Size L)) (content s))) =
           Inr drm"
  shows "fst (read_control_info L silent sh s) =
         Inr \<lparr>ci_first = h1,
              ci_digest = (if ctl_type h1 = DIGEST_SHA256 then Some dg else None),
              ci_second = h2,
              ci_drm = (if ctl_type h2 = NPDRM_VITA then Some drm else None),
              ci_offset = off + SceControlInfo_Size L +
                (if ctl_type h2 = NPDRM_VITA then SceControlInfoDRM_Size L else 0),
              ci_npdrmtype = (if ctl_type h2 = NPDRM_VITA then npdrm_type drm else 0)\<rparr>"
  using assms
  by (cases "ctl_type h1 = DIGEST_SHA256"; cases "ctl_type h2 = NPDRM_VITA")
     (simp_all add: read_control_info_def read_digest_slot_def read_drm_slot_def monad_defs
       Let_def)

lemma get_keys_request:
  "encrypted t \<Longrightarrow>
     fst (get_keys X sce app n k silent t) =
       fst (get_segments X (content t) (position t) sce (sys_version app) (self_type app)
              n k silent) \<and>
     key_requests (snd (get_keys X sce app n k silent t)) =
       key_requests t @
         [\<lparr>req_sce = sce, req_sysver = sys_version app, req_self_type = self_type app,
           req_npdrmtype = n, req_klictxt = k, req_silent = silent\<rparr>]"
  by (simp add: get_keys_def split: prod.splits)

text \<open>
  C6. Let the first control-info header decode to \<open>h1\<close>. The digest record is read
  (at the chain offset plus the size of a control-info header) only when the tag of
  \<open>h1\<close> is the digest type; for any other tag there is no digest and the offset does not
  advance for it. The second control-info header \<open>h2\<close> is then read at the resulting
  offset in either case. The NPDRM type is the field of the DRM record read behind
  \<open>h2\<close> when the tag of \<open>h2\<close> is the NPDRM type, and 0 otherwise; it is this value
  that the rest of the run hands to the key lookup, which is called with it whenever a
  segment is encrypted.
\<close>

theorem control_info_chain:
  assumes "SceControlInfo_init L
             (take (SceControlInfo_Size L) (drop (controlinfo_offset sh) (content s))) = Inr h1"
    and "ctl_type h1 = DIGEST_SHA256 \<longrightarrow>
           SceControlInfoDigest256_init L
             (take (SceControlInfoDigest256_Size L)
                (drop (controlinfo_offset sh + SceControlInfo_Size L) (content s))) = Inr dg"
    and "off = SceControlInfo_Size L +
                 (if ctl_type h1 = DIGEST_SHA256 then SceControlInfoDigest256_Size L else 0)"
    and "SceControlInfo_init L
           (take (SceControlInfo_Size L) (drop (controlinfo_offset sh + off) (content s))) =
         Inr h2"
    and "ctl_type h2 = NPDRM_VITA \<longrightarrow>
           SceControlInfoDRM_init L
             (take (SceControlInfoDRM_Size L)
                (drop (controlinfo_offset sh + (off + SceControlInfo_Size L)) (content s))) =
           Inr drm"
  shows
    "fst (read_control_info L silent sh s) =
       Inr \<lparr>ci_first = h1,
            ci_digest = (if ctl_type h1 = DIGEST_SHA256 then Some dg else None),
            ci_second = h2,
            ci_drm = (if ctl_type h2 = NPDRM_VITA then Some drm else None),
            ci_offset = off + SceControlInfo_Size L +
              (if ctl_type h2 = NPDRM_VITA then SceControlInfoDRM_Size L else 0),
            ci_npdrmtype = (if ctl_type h2 = NPDRM_VITA then npdrm_type drm else 0)\<rparr> \<and>
     (\<forall>s0 sce app.
        read_headers L silent ign s0 = (Inr (sce, sh, app), s) \<longrightarrow>
        self2elf L X k silent ign s0 =
          bind (copy_elf_header L silent sh)
            (convert_segments L X k silent sce sh app
               (if ctl_type h2 = NPDRM_VITA then npdrm_type drm else 0))
            (snd (read_control_info L silent sh s))) \<and>
     (\<forall>sce app n elf_hdr t.
        convert_segments L X k silent sce sh app n elf_hdr t =
          bind (for_each (get_segment L silent sh) [0..<e_phnum elf_hdr]) (\<lambda>_.
          bind (get_keys X sce app n k silent) (\<lambda>scesegs.
          for_each (generate_segment X silent scesegs) [0..<e_phnum elf_hdr])) t) \<and>
     (\<forall>sce app n t.
        encrypted t \<longrightarrow>
        fst (get_keys X sce app n k silent t) =
          fst (get_segments X (content t) (position t) sce (sys_version app) (self_type app)
                 n k silent) \<and>
        key_requests (snd (get_keys X sce app n k silent t)) =
          key_requests t @
            [\<lparr>req_sce = sce, req_sysver = sys_version app, req_self_type = self_type app,
              req_npdrmtype = n, req_klictxt = k, req_silent = silent\<rparr>])"
proof (intro conjI allI impI)
  show r: "fst (read_control_info L silent sh s) =
       Inr \<lparr>ci_first = h1,
            ci_digest = (if ctl_type h1 = DIGEST_SHA256 then Some dg else None),
            ci_second = h2,
            ci_drm = (if ctl_type h2 = NPDRM_VITA then Some drm else None),
            ci_offset = off + SceControlInfo_Size L +
              (if ctl_type h2 = NPDRM_VITA then SceControlInfoDRM_Size L else 0),
            ci_npdrmtype = (if ctl_type h2 = NPDRM_VITA then npdrm_type drm else 0)\<rparr>"
    by (rule read_control_info_fst [OF assms])
  fix s0 sce app
  assume h: "read_headers L silent ign s0 = (Inr (sce, sh, app), s)"
  obtain c t where c: "read_control_info L silent sh s = (c, t)"
    by (cases "read_control_info L silent sh s")
  with r h show "self2elf L X k silent ign s0 =
          bind (copy_elf_header L silent sh)
            (convert_segments L X k silent sce sh app
               (if ctl_type h2 = NPDRM_VITA then npdrm_type drm else 0))
            (snd (read_control_info L silent sh s))"
    by (simp add: self2elf_def bind_def)
next
  fix sce app n elf_hdr t
  show "convert_segments L X k silent sce sh app n elf_hdr t =
          bind (for_each (get_segment L silent sh) [0..<e_phnum elf_hdr]) (\<lambda>_.
          bind (get_keys X sce app n k silent) (\<lambda>scesegs.
          for_each (generate_segment X silent scesegs) [0..<e_phnum elf_hdr])) t"
    by (simp add: convert_segments_def)
next
  fix sce app n and t :: state
  assume "encrypted t"
  then show "fst (get_keys X sce app n k silent t) =
          fst (get_segments X (content t) (position t) sce (sys_version app) (self_type app)
                 n k silent)"
    and "key_requests (snd (get_keys X sce app n k silent t)) =
          key_requests t @
            [\<lparr>req_sce = sce, req_sysver = sys_version app, req_self_type = self_type app,
              req_npdrmtype = n, req_klictxt = k, req_silent = silent\<rparr>]"
    using get_keys_request [of t X sce app n k silent] by simp_all
qed

theorem control_info_chain_witness:
  "fst (read_control_info sample_layout True self_hdr_zero (start [7, 5, 9] 0)) =
     Inr \<lparr>ci_first = \<lparr>ctl_type = OTHER_CONTROL 7\<rparr>, ci_digest = None,
          ci_second = \<lparr>ctl_type = NPDRM_VITA\<rparr>, ci_drm = Some \<lparr>npdrm_type = 9\<rparr>,
          ci_offset = 3, ci_npdrmtype = 9\<rparr> \<and>
   fst (read_control_info sample_layout True self_hdr_zero (start [4, 0xaa, 0xbb, 6] 0)) =
     Inr \<lparr>ci_first = \<lparr>ctl_type = DIGEST_SHA256\<rparr>,
          ci_digest = Some (SceControlInfoDigest256 [0xaa, 0xbb]),
          ci_second = \<lparr>ctl_type = OTHER_CONTROL 6\<rparr>, ci_drm = None,
          ci_offset = 4, ci_npdrmtype = 0\<rparr>"
proof -
  have a: "fst (read_control_info sample_layout True self_hdr_zero (start [7, 5, 9] 0)) =
     Inr \<lparr>ci_first = \<lparr>ctl_type = OTHER_CONTROL 7\<rparr>,
          ci_digest = (if ctl_type \<lparr>ctl_type = OTHER_CONTROL 7\<rparr> = DIGEST_SHA256
                       then Some (SceControlInfoDigest256 []) else None),
          ci_second = \<lparr>ctl_type = NPDRM_VITA\<rparr>,
          ci_drm = (if ctl_type \<lparr>ctl_type = NPDRM_VITA\<rparr> = NPDRM_VITA
                    then Some \<lparr>npdrm_type = 9\<rparr> else None),
          ci_offset = 1 + SceControlInfo_Size sample_layout +
            (if ctl_type \<lparr>ctl_type = NPDRM_VITA\<rparr> = NPDRM_VITA
             then SceControlInfoDRM_Size sample_layout else 0),
          ci_npdrmtype = (if ctl_type \<lparr>ctl_type = NPDRM_VITA\<rparr> = NPDRM_VITA
                          then npdrm_type \<lparr>npdrm_type = 9\<rparr> else 0)\<rparr>"
    by (rule control_info_chain [THEN conjunct1])
       (simp_all add: self_hdr_zero_def sample_defs)
  have b: "fst (read_control_info sample_layout True self_hdr_zero
                  (start [4, 0xaa, 0xbb, 6] 0)) =
     Inr \<lparr>ci_first = \<lparr>ctl_type = DIGEST_SHA256\<rparr>,
          ci_digest = (if ctl_type \<lparr>ctl_type = DIGEST_SHA256\<rparr> = DIGEST_SHA256
                       then Some (SceControlInfoDigest256 [0xaa, 0xbb]) else None),
          ci_second = \<lparr>ctl_type = OTHER_CONTROL 6\<rparr>,
          ci_drm = (if ctl_type \<lparr>ctl_type = OTHER_CONTROL 6\<rparr> = NPDRM_VITA
                    then Some \<lparr>npdrm_type = 0\<rparr> else None),
          ci_offset = 3 + SceControlInfo_Size sample_layout +
            (if ctl_type \<lparr>ctl_type = OTHER_CONTROL 6\<rparr> = NPDRM_VITA
             then SceControlInfoDRM_Size sample_layout else 0),
          ci_npdrmtype = (if ctl_type \<lparr>ctl_type = OTHER_CONTROL 6\<rparr> = NPDRM_VITA
                          then npdrm_type \<lparr>npdrm_type = 0\<rparr> else 0)\<rparr>"
    by (rule control_info_chain [THEN conjunct1])
       (simp_all add: self_hdr_zero_def sample_defs)
  from a b show ?thesis by (simp add: sample_layout_def)
qed

section \<open>The two loops (lines 79 to 99 and 106 to 142)\<close>

text \<open>
  A rule for \<open>for i in range(n)\<close>: \<open>P i\<close> holds before iteration \<open>i\<close>, and \<open>Q\<close>
  when an iteration raises.
\<close>

lemma for_each_upt_rule:
  assumes "P 0 s"
    and "\<And>i t. i < n \<Longrightarrow> P i t \<Longrightarrow>
           (case body i t of (Inl e, t') \<Rightarrow> Q t' | (Inr u, t') \<Rightarrow> P (Suc i) t')"
  shows "case for_each body [0..<n] s of (Inl e, t') \<Rightarrow> Q t' | (Inr u, t') \<Rightarrow> P n t'"
  using assms(2)
proof (induction n)
  case 0
  from assms(1) show ?case by (simp add: ok_def)
next
  case (Suc n)
  obtain r t1 where a: "for_each body [0..<n] s = (r, t1)"
    by (cases "for_each body [0..<n] s")
  have ih: "case for_each body [0..<n] s of (Inl e, t') \<Rightarrow> Q t' | (Inr u, t') \<Rightarrow> P n t'"
    by (rule Suc.IH) (simp add: Suc.prems)
  have b: "for_each body [0..<Suc n] s =
             bind (for_each body [0..<n]) (\<lambda>_. for_each body [n]) s"
    by (simp add: for_each_append)
  show ?case
  proof (cases r)
    case (Inl e)
    with a ih b show ?thesis by (simp add: bind_def)
  next
    case (Inr u)
    with a ih have "P n t1" by simp
    then have "case body n t1 of (Inl e, t') \<Rightarrow> Q t' | (Inr u, t') \<Rightarrow> P (Suc n) t'"
      by (intro Suc.prems) simp
    with a b Inr show ?thesis
      by (simp add: bind_def ok_def split: prod.splits sum.splits)
  qed
qed

lemma get_segment_infos:
  "case get_segment L silent sh i t of
     (Inl e, t') \<Rightarrow>
       segment_infos t' = segment_infos t \<and> encrypted t' = encrypted t \<and>
       key_requests t' = key_requests t \<and> visits t' = visits t
   | (Inr u, t') \<Rightarrow>
       (\<exists>si. segment_infos t' = (segment_infos t)(i \<mapsto> si) \<and>
             encrypted t' = (encrypted t \<or> plaintext si = NO)) \<and>
       key_requests t' = key_requests t \<and> visits t' = visits t"
  by (auto simp: get_segment_def monad_defs Let_def split: sum.splits)

lemma get_segments_loop_infos:
  assumes "segment_infos t = Map.empty" and "\<not> encrypted t"
  shows "case for_each (get_segment L silent sh) [0..<n] t of
     (Inl e, t') \<Rightarrow>
       (encrypted t' \<longrightarrow> (\<exists>j si. segment_infos t' j = Some si \<and> plaintext si = NO)) \<and>
       key_requests t' = key_requests t \<and> visits t' = visits t
   | (Inr u, t') \<Rightarrow>
       (dom (segment_infos t') = {0..<n} \<and>
        (encrypted t' \<longrightarrow> (\<exists>j si. segment_infos t' j = Some si \<and> plaintext si = NO)) \<and>
        key_requests t' = key_requests t \<and> visits t' = visits t)"
proof (rule for_each_upt_rule
    [where P = "\<lambda>i t'. dom (segment_infos t') = {0..<i} \<and>
        (encrypted t' \<longrightarrow> (\<exists>j si. segment_infos t' j = Some si \<and> plaintext si = NO)) \<and>
        key_requests t' = key_requests t \<and> visits t' = visits t"])
  from assms show "dom (segment_infos t) = {0..<0} \<and>
        (encrypted t \<longrightarrow> (\<exists>j si. segment_infos t j = Some si \<and> plaintext si = NO)) \<and>
        key_requests t = key_requests t \<and> visits t = visits t"
    by simp
next
  fix i and u :: state
  assume p: "dom (segment_infos u) = {0..<i} \<and>
        (encrypted u \<longrightarrow> (\<exists>j si. segment_infos u j = Some si \<and> plaintext si = NO)) \<and>
        key_requests u = key_requests t \<and> visits u = visits t"
  then have ni: "segment_infos u i = None" by (auto simp: domIff [symmetric])
  obtain r u' where g: "get_segment L silent sh i u = (r, u')"
    by (cases "get_segment L silent sh i u")
  show "case get_segment L silent sh i u of
     (Inl e, t') \<Rightarrow>
       (encrypted t' \<longrightarrow> (\<exists>j si. segment_infos t' j = Some si \<and> plaintext si = NO)) \<and>
       key_requests t' = key_requests t \<and> visits t' = visits t
   | (Inr w, t') \<Rightarrow>
       dom (segment_infos t') = {0..<Suc i} \<and>
        (encrypted t' \<longrightarrow> (\<exists>j si. segment_infos t' j = Some si \<and> plaintext si = NO)) \<and>
        key_requests t' = key_requests t \<and> visits t' = visits t"
  proof (cases r)
    case (Inl e)
    with get_segment_infos [where L = L and silent = silent and sh = sh and i = i and t = u] g p show ?thesis by simp
  next
    case (Inr w)
    with get_segment_infos [where L = L and silent = silent and sh = sh and i = i and t = u] g obtain si where
      si: "segment_infos u' = (segment_infos u)(i \<mapsto> si)"
        "encrypted u' = (encrypted u \<or> plaintext si = NO)"
        "key_requests u' = key_requests u" "visits u' = visits u"
      by auto
    have "dom (segment_infos u') = {0..<Suc i}"
      using si(1) p by (simp add: atLeast0_lessThan_Suc)
    moreover have "encrypted u' \<longrightarrow> (\<exists>j si. segment_infos u' j = Some si \<and> plaintext si = NO)"
    proof
      assume "encrypted u'"
      with si(2) consider "plaintext si = NO" | "encrypted u" by blast
      then show "\<exists>j si. segment_infos u' j = Some si \<and> plaintext si = NO"
      proof cases
        case 1
        with si(1) show ?thesis by (intro exI [of _ i] exI [of _ si]) simp
      next
        case 2
        with p obtain j sj where "segment_infos u j = Some sj" "plaintext sj = NO" by blast
        with ni si(1) show ?thesis by (intro exI [of _ j] exI [of _ sj]) auto
      qed
    qed
    ultimately show ?thesis using g Inr si(3,4) p by simp
  qed
qed

lemma generate_segment_visits_resolved:
  assumes "fst (resolve_idx segs i t) = Inr j"
  shows "visits (snd (generate_segment X silent segs i t)) = visits t @ [(i, j)]"
proof (cases "elf_phdrs t j")
  case None
  with assms show ?thesis by (simp add: generate_segment_unfold)
next
  case (Some phdr)
  let ?t1 = "t\<lparr>visits := visits t @ [(i, j)],
                stdout := (if silent then stdout t else stdout t @ [Print_Dumping j]),
                outf := outf t @ replicate (nat (int (p_offset phdr) - at t)) 0,
                at := int (p_offset phdr)\<rparr>"
  obtain r' t' where sp: "segment_payload X segs i j ?t1 = (r', t')"
    by (cases "segment_payload X segs i j ?t1")
  from segment_payload_result [OF sp] have "visits t' = visits t @ [(i, j)]" by simp
  with assms Some sp show ?thesis
    by (cases r') (simp_all add: generate_segment_unfold)
qed

lemma generate_segment_visits:
  "(\<exists>e. fst (generate_segment X silent segs i t) = Inl e \<and>
        visits (snd (generate_segment X silent segs i t)) = visits t \<and>
        segs \<noteq> [] \<and> map_of segs i = None) \<or>
   visits (snd (generate_segment X silent segs i t)) =
     visits t @ [(i, if segs = [] then i else idx (the (map_of segs i)))]"
proof (cases "segs \<noteq> [] \<and> map_of segs i = None")
  case True
  then have "fst (resolve_idx segs i t) = Inl KeyError"
    by (simp add: resolve_idx_def monad_defs)
  with True show ?thesis by (simp add: generate_segment_unfold)
next
  case False
  then have "fst (resolve_idx segs i t) =
      Inr (if segs = [] then i else idx (the (map_of segs i)))"
    by (auto simp: resolve_idx_def monad_defs)
  then have "visits (snd (generate_segment X silent segs i t)) =
     visits t @ [(i, if segs = [] then i else idx (the (map_of segs i)))]"
    by (rule generate_segment_visits_resolved)
  then show ?thesis ..
qed

lemma generate_loop_visits:
  "case for_each (generate_segment X silent segs) [0..<n] t of
     (Inl e, t') \<Rightarrow>
       (\<exists>m<n. visits t' =
          visits t @ map (\<lambda>i. (i, if segs = [] then i else idx (the (map_of segs i)))) [0..<m] \<or>
          visits t' =
          visits t @ map (\<lambda>i. (i, if segs = [] then i else idx (the (map_of segs i))))
                       [0..<Suc m]) \<and>
       key_requests t' = key_requests t \<and> segment_infos t' = segment_infos t
   | (Inr u, t') \<Rightarrow>
       visits t' =
         visits t @ map (\<lambda>i. (i, if segs = [] then i else idx (the (map_of segs i)))) [0..<n] \<and>
       key_requests t' = key_requests t \<and> segment_infos t' = segment_infos t"
proof (rule for_each_upt_rule
    [where P = "\<lambda>k t'. visits t' =
         visits t @ map (\<lambda>i. (i, if segs = [] then i else idx (the (map_of segs i)))) [0..<k] \<and>
       key_requests t' = key_requests t \<and> segment_infos t' = segment_infos t"])
  show "visits t =
         visits t @ map (\<lambda>i. (i, if segs = [] then i else idx (the (map_of segs i)))) [0..<0] \<and>
       key_requests t = key_requests t \<and> segment_infos t = segment_infos t"
    by simp
next
  fix k and u :: state
  let ?f = "\<lambda>i. (i, if segs = [] then i else idx (the (map_of segs i)))"
  assume k: "k < n" and p: "visits u = visits t @ map ?f [0..<k] \<and>
       key_requests u = key_requests t \<and> segment_infos u = segment_infos t"
  obtain r u' where g: "generate_segment X silent segs k u = (r, u')"
    by (cases "generate_segment X silent segs k u")
  have fr: "key_requests u' = key_requests u" "segment_infos u' = segment_infos u"
    using generate_segment_frame(2,4) [of X silent segs k u] g by simp_all
  from generate_segment_visits [of X silent segs k u] g
  have v: "(\<exists>e. r = Inl e \<and> visits u' = visits u) \<or> visits u' = visits u @ [?f k]"
    by auto
  show "case generate_segment X silent segs k u of
     (Inl e, t') \<Rightarrow>
       (\<exists>m<n. visits t' = visits t @ map ?f [0..<m] \<or>
              visits t' = visits t @ map ?f [0..<Suc m]) \<and>
       key_requests t' = key_requests t \<and> segment_infos t' = segment_infos t
   | (Inr w, t') \<Rightarrow>
       visits t' = visits t @ map ?f [0..<Suc k] \<and>
       key_requests t' = key_requests t \<and> segment_infos t' = segment_infos t"
  proof (cases r)
    case (Inl e)
    from v p have "visits u' = visits t @ map ?f [0..<k] \<or>
                   visits u' = visits t @ map ?f [0..<Suc k]"
      by auto
    with k have "\<exists>m<n. visits u' = visits t @ map ?f [0..<m] \<or>
                       visits u' = visits t @ map ?f [0..<Suc m]"
      by blast
    with g Inl fr p show ?thesis by simp
  next
    case (Inr w)
    with v p have "visits u' = visits t @ map ?f [0..<Suc k]" by auto
    with g Inr fr p show ?thesis by simp
  qed
qed

section \<open>Containers without encrypted segments (lines 96 to 110)\<close>

lemma copy_elf_header_locals:
  assumes "fst (copy_elf_header L silent sh s) = Inr h"
  shows "segment_infos (snd (copy_elf_header L silent sh s)) = Map.empty"
    and "elf_phdrs (snd (copy_elf_header L silent sh s)) = Map.empty"
    and "\<not> encrypted (snd (copy_elf_header L silent sh s))"
  using assms
  by (simp_all add: copy_elf_header_def init_locals_def monad_defs Let_def split: sum.splits)

lemma convert_segments_plaintext:
  assumes e: "segment_infos t = Map.empty" "\<not> encrypted t"
    and p: "\<forall>i si. segment_infos (snd (convert_segments L X k silent sce sh app n h t)) i =
                     Some si \<longrightarrow> plaintext si \<noteq> NO"
  shows "key_requests (snd (convert_segments L X k silent sce sh app n h t)) = key_requests t \<and>
         (\<exists>m. visits (snd (convert_segments L X k silent sce sh app n h t)) =
                visits t @ map (\<lambda>i. (i, i)) [0..<m]) \<and>
         (fst (convert_segments L X k silent sce sh app n h t) = Inr () \<longrightarrow>
            visits (snd (convert_segments L X k silent sce sh app n h t)) =
              visits t @ map (\<lambda>i. (i, i))
                [0..<card (dom (segment_infos
                   (snd (convert_segments L X k silent sce sh app n h t))))])"
proof -
  let ?C = "convert_segments L X k silent sce sh app n h t"
  let ?n = "e_phnum h"
  obtain r1 t1 where a: "for_each (get_segment L silent sh) [0..<?n] t = (r1, t1)"
    by (cases "for_each (get_segment L silent sh) [0..<?n] t")
  note l1 = get_segments_loop_infos [OF e, where L = L and silent = silent and sh = sh
      and n = ?n]
  show ?thesis
  proof (cases r1)
    case (Inl err)
    with a have c: "?C = (Inl err, t1)" by (simp add: convert_segments_def bind_def)
    from l1 a Inl have "key_requests t1 = key_requests t" "visits t1 = visits t" by simp_all
    with c show ?thesis by simp
  next
    case r1: (Inr u)
    from l1 a r1 have t1: "dom (segment_infos t1) = {0..<?n}"
      "encrypted t1 \<longrightarrow> (\<exists>j si. segment_infos t1 j = Some si \<and> plaintext si = NO)"
      "key_requests t1 = key_requests t" "visits t1 = visits t"
      by simp_all
    obtain r2 t2 where b: "get_keys X sce app n k silent t1 = (r2, t2)"
      by (cases "get_keys X sce app n k silent t1")
    have t2: "segment_infos t2 = segment_infos t1"
      using get_keys_frame(6) [of X sce app n k silent t1] b by simp
    have c: "?C = (case r2 of Inl err \<Rightarrow> (Inl err, t2)
                   | Inr segs \<Rightarrow> for_each (generate_segment X silent segs) [0..<?n] t2)"
      using a r1 b by (simp add: convert_segments_def bind_def split: sum.splits)
    have infos: "segment_infos (snd ?C) = segment_infos t1"
    proof (cases r2)
      case (Inl err)
      with c t2 show ?thesis by simp
    next
      case (Inr segs)
      obtain r3 t3 where d: "for_each (generate_segment X silent segs) [0..<?n] t2 = (r3, t3)"
        by (cases "for_each (generate_segment X silent segs) [0..<?n] t2")
      with generate_loop_visits [where X = X and silent = silent and segs = segs
          and n = ?n and t = t2]
      have "segment_infos t3 = segment_infos t2" by (cases r3) simp_all
      with c Inr d t2 show ?thesis by simp
    qed
    have ne: "\<not> encrypted t1"
    proof
      assume "encrypted t1"
      with t1(2) obtain j si where "segment_infos t1 j = Some si" "plaintext si = NO"
        by blast
      with infos p show False by simp
    qed
    then have k: "get_keys X sce app n k silent t1 = (Inr [], t1)"
      by (simp add: get_keys_def)
    with b have r2: "r2 = Inr []" "t2 = t1" by simp_all
    let ?B = "for_each (generate_segment X silent []) [0..<?n] t1"
    from c r2 have cb: "?C = ?B" by simp
    obtain r3 t3 where d: "?B = (r3, t3)" by (cases ?B)
    note l2 = generate_loop_visits [where X = X and silent = silent and segs = "[]"
        and n = ?n and t = t1]
    show ?thesis
    proof (cases r3)
      case (Inl err)
      with l2 d obtain m where kr: "key_requests t3 = key_requests t1"
        and "visits t3 = visits t1 @ map (\<lambda>i. (i, i)) [0..<m] \<or>
             visits t3 = visits t1 @ map (\<lambda>i. (i, i)) [0..<Suc m]"
        by auto
      then have "\<exists>m. visits t3 = visits t1 @ map (\<lambda>i. (i, i)) [0..<m]"
        by blast
      with kr cb d Inl t1(3,4) show ?thesis by simp
    next
      case (Inr w)
      with l2 d have "key_requests t3 = key_requests t1"
        "visits t3 = visits t1 @ map (\<lambda>i. (i, i)) [0..<?n]"
        "segment_infos t3 = segment_infos t1"
        by simp_all
      with cb d t1 show ?thesis by auto
    qed
  qed
qed

text \<open>
  C4. When no segment info that a run has read says that its segment is not plaintext,
  the run does not call the key lookup, and the reconstruction loop resolves every
  index to itself: its visits are the pairs \<open>(i, i)\<close> in ascending order, for all the
  segment infos when the run completes.
\<close>

theorem plaintext_needs_no_keys:
  assumes "\<forall>i si. segment_infos (snd (self2elf L X k silent ign s)) i = Some si \<longrightarrow>
                    plaintext si \<noteq> NO"
  shows "key_requests (snd (self2elf L X k silent ign s)) = key_requests s \<and>
         (\<exists>m. visits (snd (self2elf L X k silent ign s)) =
                visits s @ map (\<lambda>i. (i, i)) [0..<m]) \<and>
         (fst (self2elf L X k silent ign s) = Inr () \<longrightarrow>
            visits (snd (self2elf L X k silent ign s)) =
              visits s @ map (\<lambda>i. (i, i))
                [0..<card (dom (segment_infos (snd (self2elf L X k silent ign s))))])"
proof -
  obtain r1 s1 where a: "read_headers L silent ign s = (r1, s1)"
    by (cases "read_headers L silent ign s")
  have f1: "key_requests s1 = key_requests s" "visits s1 = visits s"
    using read_headers_frame(4,5) [of L silent ign s] a by simp_all
  show ?thesis
  proof (cases r1)
    case (Inl e)
    with a f1 show ?thesis by (simp add: self2elf_unfold)
  next
    case r1: (Inr x)
    obtain sce sh app where x: "x = (sce, sh, app)" by (cases x)
    obtain r2 s2 where b: "read_control_info L silent sh s1 = (r2, s2)"
      by (cases "read_control_info L silent sh s1")
    have f2: "key_requests s2 = key_requests s" "visits s2 = visits s"
      using read_control_info_frame(4,5) [of L silent sh s1] b f1 by simp_all
    show ?thesis
    proof (cases r2)
      case (Inl e)
      with a r1 x b f2 show ?thesis by (simp add: self2elf_unfold)
    next
      case r2: (Inr ctl)
      obtain r3 s3 where c: "copy_elf_header L silent sh s2 = (r3, s3)"
        by (cases "copy_elf_header L silent sh s2")
      have f3: "key_requests s3 = key_requests s" "visits s3 = visits s"
        using copy_elf_header_frame(2,3) [of L silent sh s2] c f2 by simp_all
      show ?thesis
      proof (cases r3)
        case (Inl e)
        with a r1 x b r2 c f3 show ?thesis by (simp add: self2elf_unfold)
      next
        case r3: (Inr h)
        have e: "segment_infos s3 = Map.empty" "\<not> encrypted s3"
          using copy_elf_header_locals(1,3) [of L silent sh s2 h] c r3 by simp_all
        have u: "self2elf L X k silent ign s =
                 convert_segments L X k silent sce sh app (ci_npdrmtype ctl) h s3"
          using a r1 x b r2 c r3 by (simp add: self2elf_unfold)
        from convert_segments_plaintext [OF e, of L X k silent sce sh app "ci_npdrmtype ctl" h]
          assms
        show ?thesis unfolding u f3 by simp
      qed
    qed
  qed
qed

lemma plain_run_infos:
  "segment_infos (snd (self2elf sample_layout (sample_services []) [] True False
                         (start plain_container 0))) =
   [0 \<mapsto> \<lparr>offset = 144, seg_size = 3, compressed = NO, plaintext = YES\<rparr>,
    1 \<mapsto> \<lparr>offset = 147, seg_size = 2, compressed = NO, plaintext = YES\<rparr>]"
  apply (simp add: run_defs plain_container_def monad_defs sample_defs Let_def)
  apply (simp add: numeral_2_eq_2)
  done

theorem plaintext_needs_no_keys_witness:
  "key_requests (snd (self2elf sample_layout (sample_services []) [] True False
                        (start plain_container 0))) = [] \<and>
   visits (snd (self2elf sample_layout (sample_services []) [] True False
                  (start plain_container 0))) = [(0, 0), (1, 1)]"
proof -
  let ?R = "self2elf sample_layout (sample_services []) [] True False (start plain_container 0)"
  have "\<forall>i si. segment_infos (snd ?R) i = Some si \<longrightarrow> plaintext si \<noteq> NO"
    by (auto simp: plain_run_infos split: if_splits)
  from plaintext_needs_no_keys [OF this]
  have "key_requests (snd ?R) = key_requests (start plain_container 0)"
    and "visits (snd ?R) =
          visits (start plain_container 0) @
          map (\<lambda>i. (i, i)) [0..<card (dom (segment_infos (snd ?R)))]"
    by (simp_all add: plain_run_silent(1))
  moreover have "card (dom (segment_infos (snd ?R))) = 2"
    by (simp add: plain_run_infos)
  moreover have "[0..<2] = [0, 1]" by (simp add: upt_rec)
  ultimately show ?thesis by (simp add: start_def)
qed

section \<open>The order of the reconstruction loop (lines 106 to 123)\<close>





section \<open>The position of the input stream (lines 19 to 37)\<close>

lemma read_headers_position:
  assumes "SceHeader_init L (take (SceHeader_Size L) (drop p (content s))) =
           SceHeader_init L (take (SceHeader_Size L) (drop q (content s)))"
    and "SelfHeader_init L
           (take (SelfHeader_Size L)
              (drop (p + length (take (SceHeader_Size L) (drop p (content s)))) (content s))) =
         SelfHeader_init L
           (take (SelfHeader_Size L)
              (drop (q + length (take (SceHeader_Size L) (drop q (content s)))) (content s)))"
  shows "fst (read_headers L silent ign (s\<lparr>position := p\<rparr>)) =
         fst (read_headers L silent ign (s\<lparr>position := q\<rparr>))"
    and "(snd (read_headers L silent ign (s\<lparr>position := p\<rparr>)))\<lparr>position := 0\<rparr> =
         (snd (read_headers L silent ign (s\<lparr>position := q\<rparr>)))\<lparr>position := 0\<rparr>"
    and "fst (read_headers L silent ign (s\<lparr>position := p\<rparr>)) = Inr v \<Longrightarrow>
         snd (read_headers L silent ign (s\<lparr>position := p\<rparr>)) =
         snd (read_headers L silent ign (s\<lparr>position := q\<rparr>))"
  using assms
  by (cases silent; simp add: read_headers_def monad_defs Let_def split: sum.splits)+

lemma seeking_phases:
  "read_control_info L silent sh (s\<lparr>position := p\<rparr>) =
   read_control_info L silent sh (s\<lparr>position := q\<rparr>)"
  "copy_elf_header L silent sh (s\<lparr>position := p\<rparr>) =
   copy_elf_header L silent sh (s\<lparr>position := q\<rparr>)"
  "get_segment L silent sh i (s\<lparr>position := p\<rparr>) =
   get_segment L silent sh i (s\<lparr>position := q\<rparr>)"
  by (simp_all add: read_control_info_def copy_elf_header_def get_segment_def monad_defs)

text \<open>
  C8, as amended. The envelope header and the loader header are read where the stream
  stands when the conversion starts; every later read is preceded by an absolute seek.
  So two runs on the same file, from two initial positions at which the envelope header
  and the loader header decode alike, end the same way, and their final states (the
  output, what was printed, the key requests, the visits) agree in everything but the
  position of the input stream. The control-info chain, the executable header and each
  program header with its segment info do not depend on the position at all.
\<close>

theorem later_reads_seek_first:
  assumes "SceHeader_init L (take (SceHeader_Size L) (drop p (content s))) =
           SceHeader_init L (take (SceHeader_Size L) (drop q (content s)))"
    and "SelfHeader_init L
           (take (SelfHeader_Size L)
              (drop (p + length (take (SceHeader_Size L) (drop p (content s)))) (content s))) =
         SelfHeader_init L
           (take (SelfHeader_Size L)
              (drop (q + length (take (SceHeader_Size L) (drop q (content s)))) (content s)))"
  shows "fst (self2elf L X k silent ign (s\<lparr>position := p\<rparr>)) =
         fst (self2elf L X k silent ign (s\<lparr>position := q\<rparr>)) \<and>
         (snd (self2elf L X k silent ign (s\<lparr>position := p\<rparr>)))\<lparr>position := 0\<rparr> =
         (snd (self2elf L X k silent ign (s\<lparr>position := q\<rparr>)))\<lparr>position := 0\<rparr> \<and>
         (\<forall>sh. read_control_info L silent sh (s\<lparr>position := p\<rparr>) =
               read_control_info L silent sh (s\<lparr>position := q\<rparr>)) \<and>
         (\<forall>sh. copy_elf_header L silent sh (s\<lparr>position := p\<rparr>) =
               copy_elf_header L silent sh (s\<lparr>position := q\<rparr>)) \<and>
         (\<forall>sh i. get_segment L silent sh i (s\<lparr>position := p\<rparr>) =
                 get_segment L silent sh i (s\<lparr>position := q\<rparr>))"
proof -
  let ?P = "read_headers L silent ign (s\<lparr>position := p\<rparr>)"
  let ?Q = "read_headers L silent ign (s\<lparr>position := q\<rparr>)"
  note rh = read_headers_position [OF assms, of silent ign]
  have "fst (self2elf L X k silent ign (s\<lparr>position := p\<rparr>)) =
         fst (self2elf L X k silent ign (s\<lparr>position := q\<rparr>)) \<and>
         (snd (self2elf L X k silent ign (s\<lparr>position := p\<rparr>)))\<lparr>position := 0\<rparr> =
         (snd (self2elf L X k silent ign (s\<lparr>position := q\<rparr>)))\<lparr>position := 0\<rparr>"
  proof -
    obtain rp tp where P: "?P = (rp, tp)" by (cases ?P)
    obtain rq tq where Q: "?Q = (rq, tq)" by (cases ?Q)
    from rh(1) P Q have e: "rq = rp" by simp
    show ?thesis
    proof (cases rp)
      case (Inl err)
      with P Q e have "self2elf L X k silent ign (s\<lparr>position := p\<rparr>) = (Inl err, tp)"
        "self2elf L X k silent ign (s\<lparr>position := q\<rparr>) = (Inl err, tq)"
        by (simp_all add: self2elf_unfold)
      moreover from rh(2) P Q have "tp\<lparr>position := 0\<rparr> = tq\<lparr>position := 0\<rparr>" by simp
      ultimately show ?thesis by simp
    next
      case (Inr v)
      with P have "fst ?P = Inr v" by simp
      from rh(3) [OF this] P Q have "tp = tq" by simp
      with P Q e have "?P = ?Q" by simp
      then have "self2elf L X k silent ign (s\<lparr>position := p\<rparr>) =
                 self2elf L X k silent ign (s\<lparr>position := q\<rparr>)"
        by (simp add: self2elf_unfold)
      then show ?thesis by simp
    qed
  qed
  then show ?thesis by (simp add: seeking_phases)
qed

theorem later_reads_seek_first_witness:
  "outf (snd (self2elf sample_layout (sample_services []) [] True False
                (start (plain_container @ plain_container) 149))) =
   outf (snd (self2elf sample_layout (sample_services []) [] True False
                (start (plain_container @ plain_container) 0)))"
proof -
  let ?c = "plain_container @ plain_container"
  have l: "length plain_container = 149"
    by (simp add: plain_container_def sample_defs)
  have a: "take n (drop 149 ?c) = take n plain_container" for n
    by (simp add: l)
  have b: "take 4 ?c = take 4 plain_container"
    by (simp add: l)
  have c: "take 6 (drop 153 ?c) = take 6 (drop 4 plain_container)"
    "take 6 (drop 4 ?c) = take 6 (drop 4 plain_container)"
    by (simp_all add: l)
  have "(snd (self2elf sample_layout (sample_services []) [] True False
                ((start ?c 0)\<lparr>position := 149\<rparr>)))\<lparr>position := 0\<rparr> =
        (snd (self2elf sample_layout (sample_services []) [] True False
                ((start ?c 0)\<lparr>position := 0\<rparr>)))\<lparr>position := 0\<rparr>"
    by (rule later_reads_seek_first [THEN conjunct2, THEN conjunct1])
       (simp_all add: sample_layout_def start_def a b c l)
  then have "outf ((snd (self2elf sample_layout (sample_services []) [] True False
                ((start ?c 0)\<lparr>position := 149\<rparr>)))\<lparr>position := 0\<rparr>) =
        outf ((snd (self2elf sample_layout (sample_services []) [] True False
                ((start ?c 0)\<lparr>position := 0\<rparr>)))\<lparr>position := 0\<rparr>)"
    by (rule arg_cong)
  then show ?thesis by (simp add: start_def)
qed

lemma shifted_run_length:
  "length (outf (snd (self2elf sample_layout (sample_services []) [] True False
                        (start plain_container 1)))) = 52"
  by (simp add: run_defs plain_container_def monad_defs sample_defs Let_def)

theorem initial_position_matters:
  "outf (snd (self2elf sample_layout (sample_services []) [] True False
                (start plain_container 1))) \<noteq>
   outf (snd (self2elf sample_layout (sample_services []) [] True False
                (start plain_container 0)))"
proof
  assume "outf (snd (self2elf sample_layout (sample_services []) [] True False
                (start plain_container 1))) =
   outf (snd (self2elf sample_layout (sample_services []) [] True False
                (start plain_container 0)))"
  then have "length (outf (snd (self2elf sample_layout (sample_services []) [] True False
                (start plain_container 1)))) =
   length (outf (snd (self2elf sample_layout (sample_services []) [] True False
                (start plain_container 0))))"
    by simp
  then show False by (simp only: shifted_run_length plain_run_length)
qed

section \<open>The image a plaintext container is converted to (lines 63 to 142)\<close>

lemma get_segment_result:
  assumes "ElfPhdr_init L
             (take (ElfPhdr_Size L) (drop (phdr_offset sh + i * ElfPhdr_Size L) (content t))) =
           Inr p"
    and "SegmentInfo_init L
           (take (SegmentInfo_Size L)
              (drop (segment_info_offset sh + i * SegmentInfo_Size L) (content t))) = Inr si"
  shows "get_segment L silent sh i t = (Inr (), snd (get_segment L silent sh i t))"
    and "outf (snd (get_segment L silent sh i t)) =
           outf t @ take (ElfPhdr_Size L) (drop (phdr_offset sh + i * ElfPhdr_Size L) (content t))"
    and "at (snd (get_segment L silent sh i t)) = at t + int (ElfPhdr_Size L)"
    and "elf_phdrs (snd (get_segment L silent sh i t)) = (elf_phdrs t)(i \<mapsto> p)"
    and "segment_infos (snd (get_segment L silent sh i t)) = (segment_infos t)(i \<mapsto> si)"
    and "encrypted (snd (get_segment L silent sh i t)) = (encrypted t \<or> plaintext si = NO)"
    and "content (snd (get_segment L silent sh i t)) = content t"
  using assms
  by (cases silent; simp add: get_segment_def monad_defs)+

lemma get_segments_loop_result:
  assumes pb: "pb = (\<lambda>i. take (ElfPhdr_Size L)
                        (drop (phdr_offset sh + i * ElfPhdr_Size L) (content t)))"
    and ph: "\<forall>i<n. ElfPhdr_init L (pb i) = Inr (ph i)"
    and si: "\<forall>i<n. SegmentInfo_init L
                      (take (SegmentInfo_Size L)
                         (drop (segment_info_offset sh + i * SegmentInfo_Size L) (content t))) =
                    Inr (si i) \<and> plaintext (si i) \<noteq> NO"
  shows "case for_each (get_segment L silent sh) [0..<n] t of
           (Inl e, t') \<Rightarrow> False
         | (Inr u, t') \<Rightarrow>
             content t' = content t \<and> outf t' = outf t @ concat (map pb [0..<n]) \<and>
             at t' = at t + int n * int (ElfPhdr_Size L) \<and>
             (\<forall>i<n. elf_phdrs t' i = Some (ph i)) \<and>
             (\<forall>i<n. segment_infos t' i = Some (si i)) \<and> encrypted t' = encrypted t"
proof (rule for_each_upt_rule
    [where P = "\<lambda>k t'. content t' = content t \<and> outf t' = outf t @ concat (map pb [0..<k]) \<and>
             at t' = at t + int k * int (ElfPhdr_Size L) \<and>
             (\<forall>i<k. elf_phdrs t' i = Some (ph i)) \<and>
             (\<forall>i<k. segment_infos t' i = Some (si i)) \<and> encrypted t' = encrypted t"
       and Q = "\<lambda>t'. False"])
  show "content t = content t \<and> outf t = outf t @ concat (map pb [0..<0]) \<and>
             at t = at t + int 0 * int (ElfPhdr_Size L) \<and>
             (\<forall>i<0. elf_phdrs t i = Some (ph i)) \<and>
             (\<forall>i<0. segment_infos t i = Some (si i)) \<and> encrypted t = encrypted t"
    by simp
next
  fix k and u :: state
  assume k: "k < n"
    and p: "content u = content t \<and> outf u = outf t @ concat (map pb [0..<k]) \<and>
             at u = at t + int k * int (ElfPhdr_Size L) \<and>
             (\<forall>i<k. elf_phdrs u i = Some (ph i)) \<and>
             (\<forall>i<k. segment_infos u i = Some (si i)) \<and> encrypted u = encrypted t"
  from k ph pb p have a: "ElfPhdr_init L
             (take (ElfPhdr_Size L) (drop (phdr_offset sh + k * ElfPhdr_Size L) (content u))) =
           Inr (ph k)"
    by simp
  from k si p have b: "SegmentInfo_init L
           (take (SegmentInfo_Size L)
              (drop (segment_info_offset sh + k * SegmentInfo_Size L) (content u))) =
           Inr (si k)" and c: "plaintext (si k) \<noteq> NO"
    by simp_all
  note g = get_segment_result [OF a b, of silent]
  let ?u' = "snd (get_segment L silent sh k u)"
  have "content ?u' = content t"
    using g(7) p by simp
  moreover have "outf ?u' = outf t @ concat (map pb [0..<Suc k])"
    using g(2) p pb by simp
  moreover have "at ?u' = at t + int (Suc k) * int (ElfPhdr_Size L)"
    using g(3) p by (simp add: algebra_simps)
  moreover have "\<forall>i<Suc k. elf_phdrs ?u' i = Some (ph i)"
    using g(4) p by (simp add: less_Suc_eq)
  moreover have "\<forall>i<Suc k. segment_infos ?u' i = Some (si i)"
    using g(5) p by (simp add: less_Suc_eq)
  moreover have "encrypted ?u' = encrypted t"
    using g(6) p c by simp
  ultimately show "case get_segment L silent sh k u of
           (Inl e, t') \<Rightarrow> False
         | (Inr w, t') \<Rightarrow>
             content t' = content t \<and> outf t' = outf t @ concat (map pb [0..<Suc k]) \<and>
             at t' = at t + int (Suc k) * int (ElfPhdr_Size L) \<and>
             (\<forall>i<Suc k. elf_phdrs t' i = Some (ph i)) \<and>
             (\<forall>i<Suc k. segment_infos t' i = Some (si i)) \<and> encrypted t' = encrypted t"
    by (subst g(1)) simp
qed

lemma foldl_place_None: "foldl place None xs = None"
  by (induction xs) (simp_all add: place_def)

lemma foldl_place_prefix:
  assumes "foldl place (Some a) (xs @ ys) = Some c"
  shows "\<exists>b. foldl place (Some a) xs = Some b"
proof (cases "foldl place (Some a) xs")
  case None
  with assms show ?thesis by (simp add: foldl_place_None)
next
  case (Some b)
  then show ?thesis by simp
qed

lemma generate_segment_skips:
  assumes "fst (resolve_idx segs i t) = Inr j" and "elf_phdrs t j = Some phdr"
    and "p_filesz phdr = 0"
  shows "generate_segment X silent segs i t = (Inr (), t\<lparr>visits := visits t @ [(i, j)]\<rparr>)"
  using assms by (simp add: generate_segment_unfold)

lemma generate_loop_image:
  assumes ph: "\<forall>i<n. elf_phdrs t i = Some (ph i)"
    and si: "\<forall>i<n. segment_infos t i = Some (si i) \<and> plaintext (si i) \<noteq> NO \<and>
                    compressed (si i) \<noteq> YES"
    and out: "outf t = pre @ img0" "at t = int (length img0)"
    and img: "foldl place (Some img0)
                (map (\<lambda>i. (p_offset (ph i),
                            take (seg_size (si i)) (drop (offset (si i)) (content t))))
                   (filter (\<lambda>i. p_filesz (ph i) \<noteq> 0) [0..<n])) = Some img"
  shows "case for_each (generate_segment X silent []) [0..<n] t of
           (Inl e, t') \<Rightarrow> False
         | (Inr u, t') \<Rightarrow> outf t' = pre @ img \<and> at t' = int (length img)"
proof -
  let ?d = "\<lambda>i. (p_offset (ph i), take (seg_size (si i)) (drop (offset (si i)) (content t)))"
  let ?S = "\<lambda>k. map ?d (filter (\<lambda>i. p_filesz (ph i) \<noteq> 0) [0..<k])"
  let ?P = "\<lambda>k t'. content t' = content t \<and> elf_phdrs t' = elf_phdrs t \<and>
              segment_infos t' = segment_infos t \<and>
              (\<exists>b. foldl place (Some img0) (?S k) = Some b \<and> outf t' = pre @ b \<and>
                   at t' = int (length b))"
  have pre: "\<exists>b. foldl place (Some img0) (?S k) = Some b" if "k \<le> n" for k
  proof -
    from that have "[0..<n] = [0..<k] @ [k..<n]"
      by (metis le_add_diff_inverse upt_add_eq_append zero_le)
    then have "?S n = ?S k @ map ?d (filter (\<lambda>i. p_filesz (ph i) \<noteq> 0) [k..<n])"
      by simp
    with img have "foldl place (Some img0)
        (?S k @ map ?d (filter (\<lambda>i. p_filesz (ph i) \<noteq> 0) [k..<n])) = Some img"
      by (simp only:)
    then show ?thesis by (rule foldl_place_prefix)
  qed
  have "case for_each (generate_segment X silent []) [0..<n] t of
           (Inl e, t') \<Rightarrow> False
         | (Inr u, t') \<Rightarrow> ?P n t'"
  proof (rule for_each_upt_rule [where P = ?P and Q = "\<lambda>t'. False"])
    from out show "?P 0 t" by simp
  next
    fix k and u :: state
    assume k: "k < n" and p: "?P k u"
    then have "\<exists>b. foldl place (Some img0) (?S k) = Some b \<and> outf u = pre @ b \<and>
                   at u = int (length b)"
      by simp
    then obtain b where b: "foldl place (Some img0) (?S k) = Some b" "outf u = pre @ b"
      "at u = int (length b)"
      by (elim exE conjE)
    from p have fr: "content u = content t" "elf_phdrs u = elf_phdrs t"
      "segment_infos u = segment_infos t"
      by simp_all
    have r: "fst (resolve_idx [] k u) = Inr k"
      by (simp add: resolve_idx_def monad_defs)
    from k ph fr have e: "elf_phdrs u k = Some (ph k)" by simp
    from k si fr have i: "segment_infos u k = Some (si k)" "plaintext (si k) \<noteq> NO"
      "compressed (si k) \<noteq> YES"
      by simp_all
    let ?G = "generate_segment X silent [] k u"
    have frG: "content (snd ?G) = content t" "elf_phdrs (snd ?G) = elf_phdrs t"
      "segment_infos (snd ?G) = segment_infos t"
      using generate_segment_frame(1,3,4) [of X silent "[]" k u] fr by simp_all
    show "case ?G of (Inl e, t') \<Rightarrow> False | (Inr w, t') \<Rightarrow> ?P (Suc k) t'"
    proof (cases "p_filesz (ph k) = 0")
      case True
      then have S: "?S (Suc k) = ?S k" by simp
      from generate_segment_skips [OF r e True, of X silent]
      have g: "?G = (Inr (), u\<lparr>visits := visits u @ [(k, k)]\<rparr>)" .
      have "?P (Suc k) (u\<lparr>visits := visits u @ [(k, k)]\<rparr>)"
        unfolding S using fr b by simp
      with g show ?thesis by simp
    next
      case False
      let ?dat = "take (seg_size (si k)) (drop (offset (si k)) (content t))"
      from False have S: "?S (Suc k) = ?S k @ [(p_offset (ph k), ?dat)]" by simp
      from pre [of "Suc k"] k obtain b' where b': "foldl place (Some img0) (?S (Suc k)) = Some b'"
        by auto
      with S b(1) have pl: "place (Some b) (p_offset (ph k), ?dat) = Some b'" by simp
      then have le: "length b \<le> p_offset (ph k)"
        and b'eq: "b' = b @ replicate (p_offset (ph k) - length b) 0 @ ?dat"
        by (auto simp: place_def split: if_splits)
      from le b(3) have a: "at u \<le> int (p_offset (ph k))" by simp
      have pay: "fst (segment_payload X [] k k u) = Inr ?dat"
        using i fr(1) by (simp add: segment_payload_fst [OF i(1)])
      note g = generate_segment_emits [OF r e False a pay, of silent]
      have n: "nat (int (p_offset (ph k)) - at u) = p_offset (ph k) - length b"
        using b(3) by simp
      obtain w u' where G: "?G = (w, u')" by (cases ?G)
      with g(1) have w: "w = Inr ()" by simp
      from g(2) G b(2) n b'eq have o: "outf u' = pre @ b'" by simp
      from g(3) G le b'eq have c: "at u' = int (length b')" by simp
      from frG G have "content u' = content t" "elf_phdrs u' = elf_phdrs t"
        "segment_infos u' = segment_infos t"
        by simp_all
      with b' o c have "?P (Suc k) u'" by simp
      with G w show ?thesis by simp
    qed
  qed
  then have l: "case for_each (generate_segment X silent []) [0..<n] t of
           (Inl e, t') \<Rightarrow> False
         | (Inr u, t') \<Rightarrow>
             (\<exists>b. Some img = Some b \<and> outf t' = pre @ b \<and> at t' = int (length b))"
    unfolding img by (simp split: prod.splits sum.splits)
  obtain r t' where F: "for_each (generate_segment X silent []) [0..<n] t = (r, t')"
    by (cases "for_each (generate_segment X silent []) [0..<n] t")
  with l show ?thesis by (cases r) simp_all
qed

lemma length_concat_phdrs:
  "\<forall>i<n. length (pb i) = m \<Longrightarrow> length (concat (map pb [0..<n])) = n * m"
  by (induction n) simp_all

text \<open>
  C1, as amended. Take a container whose header chain decodes, whose executable header
  decodes to \<open>h\<close>, whose \<open>e_phnum h\<close> program headers decode (from \<open>ElfPhdr.Size\<close>
  bytes each) and whose segment infos all decode to plaintext, uncompressed segments.
  Its image is: the packing of \<open>h\<close> after the \<open>0xF00D\<close> adjustment, the bytes of the
  program headers as they are in the container, and the bytes of every segment with a
  file size at its file offset, behind zero padding. When that image exists (no padding
  is negative), the conversion completes and what it appends to the output is that
  image, byte for byte. The header of the output is therefore the header of the
  container only as far as the adjustment and the packing leave it unchanged.
\<close>

theorem plaintext_container_round_trip:
  assumes rh: "fst (read_headers L silent ign s) = Inr (sce, sh, app)"
    and rc: "fst (read_control_info L silent sh (snd (read_headers L silent ign s))) = Inr ctl"
    and hd: "ElfHeader_init L (take (ElfHeader_Size L) (drop (elf_offset sh) (content s))) =
             Inr h"
    and hl: "length (ElfHeader_pack L (adjust_elf_header h)) = ElfHeader_Size L"
    and pb: "pb = (\<lambda>i. take (ElfPhdr_Size L)
                        (drop (phdr_offset sh + i * ElfPhdr_Size L) (content s)))"
    and ph: "\<forall>i<e_phnum h. ElfPhdr_init L (pb i) = Inr (ph i) \<and>
                           length (pb i) = ElfPhdr_Size L"
    and si: "\<forall>i<e_phnum h.
               SegmentInfo_init L
                 (take (SegmentInfo_Size L)
                    (drop (segment_info_offset sh + i * SegmentInfo_Size L) (content s))) =
               Inr (si i) \<and>
               plaintext (si i) \<noteq> NO \<and> compressed (si i) \<noteq> YES"
    and img: "elf_image (ElfHeader_pack L (adjust_elf_header h)) (map pb [0..<e_phnum h])
                (map (\<lambda>i. (p_offset (ph i),
                            take (seg_size (si i)) (drop (offset (si i)) (content s))))
                   (filter (\<lambda>i. p_filesz (ph i) \<noteq> 0) [0..<e_phnum h])) = Some img"
  shows "fst (self2elf L X k silent ign s) = Inr () \<and>
         outf (snd (self2elf L X k silent ign s)) = outf s @ img"
proof -
  let ?n = "e_phnum h"
  let ?h = "adjust_elf_header h"
  obtain s1 where a: "read_headers L silent ign s = (Inr (sce, sh, app), s1)"
    using rh by (cases "read_headers L silent ign s") simp
  with rc obtain s2 where b: "read_control_info L silent sh s1 = (Inr ctl, s2)"
    by (cases "read_control_info L silent sh s1") simp
  have f2: "content s2 = content s" "outf s2 = outf s"
    using read_headers_frame(1,3) [of L silent ign s] a
      read_control_info_frame(1,3) [of L silent sh s1] b
    by simp_all
  from hd f2 have hd2: "ElfHeader_init L
      (take (ElfHeader_Size L) (drop (elf_offset sh) (content s2))) = Inr h"
    by simp
  note ce = copy_elf_header_result [OF hd2, of silent]
  obtain s3 where c: "copy_elf_header L silent sh s2 = (Inr ?h, s3)"
    using ce(1) by (cases "copy_elf_header L silent sh s2") simp
  have f3: "content s3 = content s" "outf s3 = outf s @ ElfHeader_pack L ?h"
    "at s3 = int (ElfHeader_Size L)" "\<not> encrypted s3"
    using ce(2,3) c f2 copy_elf_header_frame(1) [of L silent sh s2]
      copy_elf_header_locals(3) [of L silent sh s2 ?h]
    by simp_all
  have n: "e_phnum ?h = ?n" by (simp add: adjust_elf_header_def)
  have u: "self2elf L X k silent ign s =
           convert_segments L X k silent sce sh app (ci_npdrmtype ctl) ?h s3"
    using a b c by (simp add: self2elf_unfold)
  have pb3: "pb = (\<lambda>i. take (ElfPhdr_Size L)
                        (drop (phdr_offset sh + i * ElfPhdr_Size L) (content s3)))"
    using pb f3(1) by simp
  have ph3: "\<forall>i<?n. ElfPhdr_init L (pb i) = Inr (ph i)"
    using ph by simp
  have si3: "\<forall>i<?n. SegmentInfo_init L
                      (take (SegmentInfo_Size L)
                         (drop (segment_info_offset sh + i * SegmentInfo_Size L) (content s3))) =
                    Inr (si i) \<and> plaintext (si i) \<noteq> NO"
    using si f3(1) by simp
  obtain r1 t1 where l1: "for_each (get_segment L silent sh) [0..<?n] s3 = (r1, t1)"
    by (cases "for_each (get_segment L silent sh) [0..<?n] s3")
  with get_segments_loop_result [OF pb3 ph3 si3, of silent]
  have t1: "r1 = Inr ()" "content t1 = content s"
    "outf t1 = outf s @ ElfHeader_pack L ?h @ concat (map pb [0..<?n])"
    "at t1 = int (ElfHeader_Size L) + int ?n * int (ElfPhdr_Size L)"
    "\<forall>i<?n. elf_phdrs t1 i = Some (ph i)" "\<forall>i<?n. segment_infos t1 i = Some (si i)"
    "\<not> encrypted t1"
    using f3 by (cases r1; simp)+
  have gk: "get_keys X sce app (ci_npdrmtype ctl) k silent t1 = (Inr [], t1)"
    using t1(7) by (simp add: get_keys_def)
  have len: "length (concat (map pb [0..<?n])) = ?n * ElfPhdr_Size L"
    using ph by (intro length_concat_phdrs) simp
  let ?img0 = "ElfHeader_pack L ?h @ concat (map pb [0..<?n])"
  have o: "outf t1 = outf s @ ?img0" using t1(3) by simp
  have at1: "at t1 = int (length ?img0)"
    using t1(4) hl len by simp
  have si1: "\<forall>i<?n. segment_infos t1 i = Some (si i) \<and> plaintext (si i) \<noteq> NO \<and>
                     compressed (si i) \<noteq> YES"
    using t1(6) si by simp
  have img1: "foldl place (Some ?img0)
                (map (\<lambda>i. (p_offset (ph i),
                            take (seg_size (si i)) (drop (offset (si i)) (content t1))))
                   (filter (\<lambda>i. p_filesz (ph i) \<noteq> 0) [0..<?n])) = Some img"
    using img t1(2) by (simp add: elf_image_def)
  obtain r2 t2 where l2: "for_each (generate_segment X silent []) [0..<?n] t1 = (r2, t2)"
    by (cases "for_each (generate_segment X silent []) [0..<?n] t1")
  with generate_loop_image [OF t1(5) si1 o at1 img1, of X silent]
  have t2: "r2 = Inr ()" "outf t2 = outf s @ img"
    by (cases r2; simp)+
  have "convert_segments L X k silent sce sh app (ci_npdrmtype ctl) ?h s3 = (Inr (), t2)"
    using l1 t1(1) gk l2 t2(1) n by (simp add: convert_segments_def bind_def)
  with u t2(2) show ?thesis by simp
qed

lemma all_less_two: "(\<forall>i<2. P i) \<longleftrightarrow> P 0 \<and> P (Suc 0)"
  by (auto simp: less_2_cases_iff)

theorem plaintext_container_round_trip_witness:
  "fst (self2elf sample_layout (sample_services []) [] True False
          (start plain_container 0)) = Inr () \<and>
   outf (snd (self2elf sample_layout (sample_services []) [] True False
                (start plain_container 0))) =
   sample_ElfHeader_pack (sample_elf_hdr 0x28 0 0) @
   sample_ElfPhdr_pack (sample_phdr 120 3) @ sample_ElfPhdr_pack (sample_phdr 128 2) @
   replicate 4 0 @ [0x11, 0x22, 0x33] @ replicate 5 0 @ [0x44, 0x55]"
proof -
  let ?s = "start plain_container 0"
  let ?sh = "\<lparr>appinfo_offset = 10, elf_offset = 20, phdr_offset = 72,
              segment_info_offset = 136, sceversion_offset = 12, controlinfo_offset = 13\<rparr>"
  let ?h = "sample_elf_hdr 0x28 0 0"
  let ?pb = "\<lambda>i. take (ElfPhdr_Size sample_layout)
                    (drop (phdr_offset ?sh + i * ElfPhdr_Size sample_layout) (content ?s))"
  let ?ph = "\<lambda>i::nat. if i = 0 then sample_phdr 120 3 else sample_phdr 128 2"
  let ?si = "\<lambda>i::nat. if i = 0 then plain_info 144 3 else plain_info 147 2"
  let ?img = "sample_ElfHeader_pack (sample_elf_hdr 0x28 0 0) @
    sample_ElfPhdr_pack (sample_phdr 120 3) @ sample_ElfPhdr_pack (sample_phdr 128 2) @
    replicate 4 0 @ [0x11, 0x22, 0x33] @ replicate 5 0 @ [0x44, 0x55]"
  have u: "[0..<2] = [0, 1]" by (simp add: upt_rec)
  have n: "e_phnum ?h = 2" by (simp add: sample_elf_hdr_def)
  have rh: "fst (read_headers sample_layout True False ?s) =
            Inr (SceHeader [0x53, 0x43, 0x45, 0], ?sh, \<lparr>sys_version = 3, self_type = 1\<rparr>)"
    by (simp add: read_headers_def plain_container_def monad_defs sample_defs Let_def)
  have rc: "fst (read_control_info sample_layout True ?sh
                   (snd (read_headers sample_layout True False ?s))) =
            Inr \<lparr>ci_first = \<lparr>ctl_type = DIGEST_SHA256\<rparr>,
                 ci_digest = Some (SceControlInfoDigest256 [0xaa, 0xbb]),
                 ci_second = \<lparr>ctl_type = NPDRM_VITA\<rparr>, ci_drm = Some \<lparr>npdrm_type = 9\<rparr>,
                 ci_offset = 5, ci_npdrmtype = 9\<rparr>"
    by (simp add: read_headers_def read_control_info_def read_digest_slot_def
        read_drm_slot_def plain_container_def monad_defs sample_defs Let_def)
  have hd: "ElfHeader_init sample_layout
              (take (ElfHeader_Size sample_layout) (drop (elf_offset ?sh) (content ?s))) =
            Inr ?h"
    by (simp add: plain_container_def sample_defs)
  have hl: "length (ElfHeader_pack sample_layout (adjust_elf_header ?h)) =
            ElfHeader_Size sample_layout"
    by (simp add: adjust_elf_header_def sample_defs)
  have ph: "\<forall>i<e_phnum ?h. ElfPhdr_init sample_layout (?pb i) = Inr (?ph i) \<and>
                            length (?pb i) = ElfPhdr_Size sample_layout"
    unfolding n all_less_two
    by (simp add: plain_container_def sample_defs)
  have si: "\<forall>i<e_phnum ?h.
               SegmentInfo_init sample_layout
                 (take (SegmentInfo_Size sample_layout)
                    (drop (segment_info_offset ?sh + i * SegmentInfo_Size sample_layout)
                       (content ?s))) =
               Inr (?si i) \<and>
               plaintext (?si i) \<noteq> NO \<and> compressed (?si i) \<noteq> YES"
    unfolding n all_less_two
    by (simp add: plain_container_def plain_info_def sample_defs)
  have img: "elf_image (ElfHeader_pack sample_layout (adjust_elf_header ?h))
                (map ?pb [0..<e_phnum ?h])
                (map (\<lambda>i. (p_offset (?ph i),
                            take (seg_size (?si i)) (drop (offset (?si i)) (content ?s))))
                   (filter (\<lambda>i. p_filesz (?ph i) \<noteq> 0) [0..<e_phnum ?h])) = Some ?img"
    unfolding n u
    by (simp add: elf_image_def place_def adjust_elf_header_def plain_container_def
        plain_info_def sample_defs)
  have o: "outf ?s = []" by (simp add: start_def)
  from plaintext_container_round_trip [OF rh rc hd hl refl ph si img, of "sample_services []" "[]"]
  show ?thesis unfolding o by simp
qed

lemma sentinel_run:
  "fst (self2elf sample_layout (sample_services []) [] True False
          (start sentinel_container 0)) = Inr ()"
  "outf (snd (self2elf sample_layout (sample_services []) [] True False
                (start sentinel_container 0))) =
   sample_ElfHeader_pack (sample_elf_hdr 0xf00d 0 0) @
   sample_ElfPhdr_pack (sample_phdr 120 3) @ sample_ElfPhdr_pack (sample_phdr 128 2) @
   replicate 4 0 @ [0x11, 0x22, 0x33] @ replicate 5 0 @ [0x44, 0x55]"
  by (simp_all add: run_defs sentinel_container_def monad_defs sample_defs Let_def)

lemma sentinel_image:
  "elf_image (sample_ElfHeader_pack (sample_elf_hdr 0xf00d 7 3))
     [sample_ElfPhdr_pack (sample_phdr 120 3), sample_ElfPhdr_pack (sample_phdr 128 2)]
     [(120, [0x11, 0x22, 0x33]), (128, [0x44, 0x55])] =
   Some (sample_ElfHeader_pack (sample_elf_hdr 0xf00d 7 3) @
         sample_ElfPhdr_pack (sample_phdr 120 3) @ sample_ElfPhdr_pack (sample_phdr 128 2) @
         replicate 4 0 @ [0x11, 0x22, 0x33] @ replicate 5 0 @ [0x44, 0x55])"
  by (simp add: elf_image_def place_def sample_defs)

theorem sentinel_header_is_rewritten:
  "fst (self2elf sample_layout (sample_services []) [] True False
          (start sentinel_container 0)) = Inr () \<and>
   Some (outf (snd (self2elf sample_layout (sample_services []) [] True False
                      (start sentinel_container 0)))) \<noteq>
   elf_image (sample_ElfHeader_pack (sample_elf_hdr 0xf00d 7 3))
     [sample_ElfPhdr_pack (sample_phdr 120 3), sample_ElfPhdr_pack (sample_phdr 128 2)]
     [(120, [0x11, 0x22, 0x33]), (128, [0x44, 0x55])]"
  unfolding sentinel_run sentinel_image
  by (simp add: sample_ElfHeader_pack_def sample_elf_hdr_def le16_def le32_def)

end
